theory Spec2Isabelle
  imports Main "HOL-Library.Sublist"
begin

section \<open>The movie listing handler: request values\<close>

text \<open>
  The handler \<^verbatim>\<open>getMovies\<close> reads \<^verbatim>\<open>req.query\<close>, the object the HTTP framework's
  query-string parser delivers. Its property values are strings, arrays or nested
  objects (\<^verbatim>\<open>rating[gte]=8\<close> arrives as \<^verbatim>\<open>{rating: {gte: "8"}}\<close>). An object is
  an association list in enumeration order. Strings are byte strings (UTF-8), JavaScript
  numbers are mathematical integers (exact below \<open>2^53\<close>), \<^verbatim>\<open>NaN\<close> is \<open>None\<close>.
  An exception that reaches the handler's \<^verbatim>\<open>catch\<close> is a value of type \<open>error\<close>.
\<close>

datatype error = SyntaxError | TypeError

datatype qval = QStr string | QArr "qval list" | QObj "(string \<times> qval) list"

type_synonym query = "(string \<times> qval) list"

definition getProp :: "query \<Rightarrow> string \<Rightarrow> qval option" where
  "getProp q k = map_of q k"

definition deleteProp :: "string \<Rightarrow> query \<Rightarrow> query" where
  "deleteProp k q = filter (\<lambda>kv. fst kv \<noteq> k) q"

text \<open>Assignment to a property: an existing key keeps its place, a new key goes last.\<close>

fun setProp :: "('k \<times> 'v) list \<Rightarrow> 'k \<times> 'v \<Rightarrow> ('k \<times> 'v) list" where
  "setProp [] kv = [kv]"
| "setProp (x # xs) kv = (if fst x = fst kv then kv # xs else x # setProp xs kv)"

text \<open>JavaScript truthiness of a property read: absent and the empty string are falsy.\<close>

fun truthy :: "qval option \<Rightarrow> bool" where
  "truthy None = False"
| "truthy (Some (QStr s)) = (s \<noteq> [])"
| "truthy (Some (QArr xs)) = True"
| "truthy (Some (QObj kvs)) = True"

section \<open>String operations of the language\<close>

fun commaSep :: "string list \<Rightarrow> string" where
  "commaSep [] = []"
| "commaSep [x] = x"
| "commaSep (x # y # ys) = x @ CHR '','' # commaSep (y # ys)"

text \<open>\<^verbatim>\<open>s.split(d)\<close> for a one-character separator and \<^verbatim>\<open>xs.join(' ')\<close>.\<close>

fun splitOn :: "char \<Rightarrow> string \<Rightarrow> string list" where
  "splitOn d [] = [[]]"
| "splitOn d (c # cs) =
     (if c = d then [] # splitOn d cs
      else (case splitOn d cs of [] \<Rightarrow> [[c]] | w # ws \<Rightarrow> (c # w) # ws))"

fun joinSpace :: "string list \<Rightarrow> string" where
  "joinSpace [] = []"
| "joinSpace [x] = x"
| "joinSpace (x # y # ys) = x @ CHR '' '' # joinSpace (y # ys)"

text \<open>
  The conversion to a string that \<^verbatim>\<open>parseInt\<close> applies to its argument. An array is
  the conversions of its elements joined by commas. An object is \<^verbatim>\<open>[object Object]\<close>,
  unless it has a property \<^verbatim>\<open>toString\<close> of its own (as \<^verbatim>\<open>page[toString]=x\<close> gives):
  that property is no function, and the conversion raises \<^verbatim>\<open>TypeError\<close>.
\<close>

fun toStringJS :: "qval \<Rightarrow> error + string"
  and toStringList :: "qval list \<Rightarrow> error + string list"
where
  "toStringJS (QStr s) = Inr s"
| "toStringJS (QArr xs) =
     (case toStringList xs of Inl e \<Rightarrow> Inl e | Inr ss \<Rightarrow> Inr (commaSep ss))"
| "toStringJS (QObj kvs) =
     (if ''toString'' \<in> set (map fst kvs) then Inl TypeError else Inr ''[object Object]'')"
| "toStringList [] = Inr []"
| "toStringList (x # xs) =
     (case toStringJS x of
        Inl e \<Rightarrow> Inl e
      | Inr s \<Rightarrow> (case toStringList xs of Inl e \<Rightarrow> Inl e | Inr ss \<Rightarrow> Inr (s # ss)))"

definition toStringProp :: "qval option \<Rightarrow> error + string" where
  "toStringProp v = (case v of None \<Rightarrow> Inr ''undefined'' | Some x \<Rightarrow> toStringJS x)"

text \<open>
  The white space \<^verbatim>\<open>parseInt\<close> skips (the \<^verbatim>\<open>WhiteSpace\<close> and \<^verbatim>\<open>LineTerminator\<close>
  code points, in UTF-8), and the length in bytes of such a character at the head of
  a string, 0 when there is none.
\<close>

definition whiteSpace :: "string list" where
  "whiteSpace =
     [[CHR 0x09], [CHR 0x0A], [CHR 0x0B], [CHR 0x0C], [CHR 0x0D], [CHR 0x20],
      [CHR 0xC2, CHR 0xA0], [CHR 0xE1, CHR 0x9A, CHR 0x80],
      [CHR 0xE2, CHR 0x80, CHR 0x80], [CHR 0xE2, CHR 0x80, CHR 0x81],
      [CHR 0xE2, CHR 0x80, CHR 0x82], [CHR 0xE2, CHR 0x80, CHR 0x83],
      [CHR 0xE2, CHR 0x80, CHR 0x84], [CHR 0xE2, CHR 0x80, CHR 0x85],
      [CHR 0xE2, CHR 0x80, CHR 0x86], [CHR 0xE2, CHR 0x80, CHR 0x87],
      [CHR 0xE2, CHR 0x80, CHR 0x88], [CHR 0xE2, CHR 0x80, CHR 0x89],
      [CHR 0xE2, CHR 0x80, CHR 0x8A], [CHR 0xE2, CHR 0x80, CHR 0xA8],
      [CHR 0xE2, CHR 0x80, CHR 0xA9], [CHR 0xE2, CHR 0x80, CHR 0xAF],
      [CHR 0xE2, CHR 0x81, CHR 0x9F], [CHR 0xE3, CHR 0x80, CHR 0x80],
      [CHR 0xEF, CHR 0xBB, CHR 0xBF]]"

definition wsLength :: "string \<Rightarrow> nat" where
  "wsLength s = (case List.find (\<lambda>w. prefix w s) whiteSpace of None \<Rightarrow> 0 | Some w \<Rightarrow> length w)"

fun skipWhiteSpace :: "string \<Rightarrow> string" where
  "skipWhiteSpace [] = []"
| "skipWhiteSpace (c # cs) =
     (case wsLength (c # cs) of 0 \<Rightarrow> c # cs | Suc n \<Rightarrow> skipWhiteSpace (drop n cs))"

definition isDigit :: "char \<Rightarrow> bool" where
  "isDigit c = (48 \<le> (of_char c :: nat) \<and> (of_char c :: nat) \<le> 57)"

definition digitsValue :: "string \<Rightarrow> int" where
  "digitsValue ds = foldl (\<lambda>a c. 10 * a + (int (of_char c) - 48)) 0 ds"

text \<open>
  \<^verbatim>\<open>parseInt(v, 10)\<close>: the argument is converted to a string; white space is skipped,
  one sign is read, then the longest run of decimal digits; with no digit the result
  is \<^verbatim>\<open>NaN\<close>.
\<close>

definition parseDecimal :: "string \<Rightarrow> int option" where
  "parseDecimal s =
     (let t = skipWhiteSpace s;
          neg = (take 1 t = ''-'');
          u = (if take 1 t = ''-'' \<or> take 1 t = ''+'' then drop 1 t else t);
          ds = takeWhile isDigit u
      in if ds = [] then None else Some ((if neg then - 1 else 1) * digitsValue ds))"

definition parseInt10 :: "qval option \<Rightarrow> error + int option" where
  "parseInt10 v = (case toStringProp v of Inl e \<Rightarrow> Inl e | Inr s \<Rightarrow> Inr (parseDecimal s))"

text \<open>\<^verbatim>\<open>parseInt(v, 10) || d\<close>: \<^verbatim>\<open>NaN\<close> and zero are falsy.\<close>

definition orDefault :: "int option \<Rightarrow> int \<Rightarrow> int" where
  "orDefault n d = (case n of None \<Rightarrow> d | Some k \<Rightarrow> if k = 0 then d else k)"

section \<open>The operator rewrite on the serialized filter\<close>

text \<open>
  \<^verbatim>\<open>queryStr.replace(/\b(gt|gte|lt|lte|in)\b/g, match => `$${match}`)\<close>.
  A word character is one of \<^verbatim>\<open>[A-Za-z0-9_]\<close>. The alternatives are tried in the
  order written; each must be followed by a word boundary. Since every alternative
  starts with a word character, the boundary in front holds exactly when the previous
  character is not a word character (or there is none).
\<close>

definition isWordChar :: "char \<Rightarrow> bool" where
  "isWordChar c =
     (let n = (of_char c :: nat)
      in (48 \<le> n \<and> n \<le> 57) \<or> (65 \<le> n \<and> n \<le> 90) \<or> n = 95 \<or> (97 \<le> n \<and> n \<le> 122))"

definition operators :: "string list" where
  "operators = [''gt'', ''gte'', ''lt'', ''lte'', ''in'']"

definition boundaryAt :: "string \<Rightarrow> bool" where
  "boundaryAt r = (case r of [] \<Rightarrow> True | c # cs \<Rightarrow> \<not> isWordChar c)"

definition matchOperator :: "string \<Rightarrow> string option" where
  "matchOperator s = List.find (\<lambda>t. prefix t s \<and> boundaryAt (drop (length t) s)) operators"

text \<open>
  The global replace scans from the left: where the pattern matches, \<^verbatim>\<open>$\<close> and the
  match are emitted and the scan goes on behind the match; elsewhere the character is
  copied. The flag says whether the previous character is a word character.
\<close>

fun replaceFrom :: "bool \<Rightarrow> string \<Rightarrow> string" where
  "replaceFrom p [] = []"
| "replaceFrom p (c # cs) =
     (case (if p then None else matchOperator (c # cs)) of
        Some t \<Rightarrow> CHR ''$'' # t @ replaceFrom True (drop (length t - 1) cs)
      | None \<Rightarrow> c # replaceFrom (isWordChar c) cs)"

definition replaceOperators :: "string \<Rightarrow> string" where
  "replaceOperators s = replaceFrom False s"

text \<open>
  What the rewrite, applied to the serialized text, does to one string of the
  parameter set: \<^verbatim>\<open>$\<close> goes in front of every operator token that stands alone.
  A control character counts as a word character in front of a token, because its
  JSON escape (\<^verbatim>\<open>\n\<close>, \<^verbatim>\<open>\u001f\<close>) ends in a letter or digit.
\<close>

fun rewriteFrom :: "bool \<Rightarrow> string \<Rightarrow> string" where
  "rewriteFrom p [] = []"
| "rewriteFrom p (c # cs) =
     (case (if p then None else matchOperator (c # cs)) of
        Some t \<Rightarrow> CHR ''$'' # t @ rewriteFrom True (drop (length t - 1) cs)
      | None \<Rightarrow> c # rewriteFrom (isWordChar c \<or> (of_char c :: nat) < 32) cs)"

definition rewriteStr :: "string \<Rightarrow> string" where
  "rewriteStr s = rewriteFrom False s"

text \<open>Whether an operator token stands alone somewhere in a string.\<close>

fun operatorWordFrom :: "bool \<Rightarrow> string \<Rightarrow> bool" where
  "operatorWordFrom p [] = False"
| "operatorWordFrom p (c # cs) =
     ((\<not> p \<and> matchOperator (c # cs) \<noteq> None) \<or> operatorWordFrom (isWordChar c) cs)"

definition hasOperatorWord :: "string \<Rightarrow> bool" where
  "hasOperatorWord s = operatorWordFrom False s"

section \<open>JSON.stringify and JSON.parse\<close>

definition dquote :: char where
  "dquote = CHR 0x22"

definition bslash :: char where
  "bslash = CHR 0x5C"

definition hexDigit :: "nat \<Rightarrow> char" where
  "hexDigit n = (if n < 10 then char_of (48 + n) else char_of (87 + n))"

text \<open>The escape \<^verbatim>\<open>JSON.stringify\<close> writes for one character of a string.\<close>

definition escapeChar :: "char \<Rightarrow> string" where
  "escapeChar c =
     (let n = (of_char c :: nat)
      in if c = dquote then [bslash, dquote]
         else if c = bslash then [bslash, bslash]
         else if n = 8 then [bslash, CHR ''b'']
         else if n = 9 then [bslash, CHR ''t'']
         else if n = 10 then [bslash, CHR ''n'']
         else if n = 12 then [bslash, CHR ''f'']
         else if n = 13 then [bslash, CHR ''r'']
         else if n < 32 then
           [bslash, CHR ''u'', CHR ''0'', CHR ''0'', hexDigit (n div 16), hexDigit (n mod 16)]
         else [c])"

definition quoteJSON :: "string \<Rightarrow> string" where
  "quoteJSON s = concat (map escapeChar s)"

fun stringify :: "qval \<Rightarrow> string" where
  "stringify (QStr s) = dquote # quoteJSON s @ [dquote]"
| "stringify (QArr xs) = CHR ''['' # commaSep (map stringify xs) @ '']''"
| "stringify (QObj kvs) =
     CHR ''{'' # commaSep (map (\<lambda>kv. dquote # quoteJSON (fst kv) @ dquote # CHR '':'' # stringify (snd kv)) kvs)
       @ ''}''"

text \<open>
  \<^verbatim>\<open>JSON.parse\<close> on the grammar that \<^verbatim>\<open>JSON.stringify\<close> writes for such values:
  strings, arrays and objects without insignificant white space. \<open>None\<close> stands for
  \<^verbatim>\<open>SyntaxError\<close>; numbers, literals and escapes above U+007F do not occur in these
  texts and are rejected as well.
\<close>

definition hexValue :: "char \<Rightarrow> nat option" where
  "hexValue c =
     (let n = (of_char c :: nat)
      in if 48 \<le> n \<and> n \<le> 57 then Some (n - 48)
         else if 97 \<le> n \<and> n \<le> 102 then Some (n - 87)
         else if 65 \<le> n \<and> n \<le> 70 then Some (n - 55)
         else None)"

definition unicodeEscape :: "string \<Rightarrow> char option" where
  "unicodeEscape h =
     (case map hexValue h of
        [Some a, Some b, Some c, Some d] \<Rightarrow>
          (if a = 0 \<and> b = 0 \<and> c < 8 then Some (char_of (16 * c + d)) else None)
      | _ \<Rightarrow> None)"

text \<open>The characters of a string literal behind its opening quote, and the rest of the text.\<close>

fun parseString :: "string \<Rightarrow> (string \<times> string) option" where
  "parseString [] = None"
| "parseString (c # cs) =
     (if c = dquote then Some ([], cs)
      else if c = bslash then
        (case cs of
           [] \<Rightarrow> None
         | e # r \<Rightarrow>
            (if e = CHR ''u'' then
               (case unicodeEscape (take 4 r) of
                  None \<Rightarrow> None
                | Some x \<Rightarrow> map_option (apfst ((#) x)) (parseString (drop 4 r)))
             else
               (case map_of [(dquote, dquote), (bslash, bslash), (CHR ''/'', CHR ''/''),
                             (CHR ''b'', CHR 0x08), (CHR ''f'', CHR 0x0C), (CHR ''n'', CHR 0x0A),
                             (CHR ''r'', CHR 0x0D), (CHR ''t'', CHR 0x09)] e of
                  None \<Rightarrow> None
                | Some x \<Rightarrow> map_option (apfst ((#) x)) (parseString r))))
      else if (of_char c :: nat) < 32 then None
      else map_option (apfst ((#) c)) (parseString cs))"

text \<open>
  Recursive descent with a step budget; \<open>JSONparse\<close> gives a budget that no text
  exhausts (each step consumes a character or is followed by one that does).
  A repeated key assigns to the same property.
\<close>

fun parseValue :: "nat \<Rightarrow> string \<Rightarrow> (qval \<times> string) option"
  and parseElements :: "nat \<Rightarrow> string \<Rightarrow> (qval list \<times> string) option"
  and parseMembers :: "nat \<Rightarrow> string \<Rightarrow> ((string \<times> qval) list \<times> string) option"
where
  "parseValue 0 s = None"
| "parseValue (Suc n) [] = None"
| "parseValue (Suc n) (c # cs) =
     (if c = dquote then map_option (apfst QStr) (parseString cs)
      else if c = CHR ''['' then
        (if take 1 cs = '']'' then Some (QArr [], drop 1 cs)
         else map_option (apfst QArr) (parseElements n cs))
      else if c = CHR ''{'' then
        (if take 1 cs = ''}'' then Some (QObj [], drop 1 cs)
         else map_option (apfst (\<lambda>ms. QObj (foldl setProp [] ms))) (parseMembers n cs))
      else None)"
| "parseElements 0 s = None"
| "parseElements (Suc n) s =
     (case parseValue n s of
        None \<Rightarrow> None
      | Some (v, r) \<Rightarrow>
         (if take 1 r = '','' then map_option (apfst ((#) v)) (parseElements n (drop 1 r))
          else if take 1 r = '']'' then Some ([v], drop 1 r)
          else None))"
| "parseMembers 0 s = None"
| "parseMembers (Suc n) s =
     (if take 1 s \<noteq> [dquote] then None
      else case parseString (drop 1 s) of
        None \<Rightarrow> None
      | Some (k, r) \<Rightarrow>
         (if take 1 r \<noteq> '':'' then None
          else case parseValue n (drop 1 r) of
            None \<Rightarrow> None
          | Some (v, r') \<Rightarrow>
             (if take 1 r' = '','' then map_option (apfst ((#) (k, v))) (parseMembers n (drop 1 r'))
              else if take 1 r' = ''}'' then Some ([(k, v)], drop 1 r')
              else None)))"

definition JSONparse :: "string \<Rightarrow> qval option" where
  "JSONparse s =
     (case parseValue (2 * length s) s of
        None \<Rightarrow> None
      | Some (v, r) \<Rightarrow> if r = [] then Some v else None)"

text \<open>
  A function applied to every key and every string of a value, and the value that
  reading a text back gives when keys repeat in an object.
\<close>

fun mapStrings :: "(string \<Rightarrow> string) \<Rightarrow> qval \<Rightarrow> qval" where
  "mapStrings f (QStr s) = QStr (f s)"
| "mapStrings f (QArr xs) = QArr (map (mapStrings f) xs)"
| "mapStrings f (QObj kvs) = QObj (map (\<lambda>kv. (f (fst kv), mapStrings f (snd kv))) kvs)"

fun collapseKeys :: "qval \<Rightarrow> qval" where
  "collapseKeys (QStr s) = QStr s"
| "collapseKeys (QArr xs) = QArr (map collapseKeys xs)"
| "collapseKeys (QObj kvs) = QObj (foldl setProp [] (map (\<lambda>kv. (fst kv, collapseKeys (snd kv))) kvs))"

fun topKeys :: "qval \<Rightarrow> string list" where
  "topKeys (QObj kvs) = map fst kvs"
| "topKeys (QStr s) = []"
| "topKeys (QArr xs) = []"

section \<open>The record store\<close>

text \<open>
  The collection behind \<^verbatim>\<open>Movie\<close> is a collaborator of the handler. It is given by
  its records and by \<open>sat\<close>, its reading of one filter document on one record.
  \<^verbatim>\<open>Movie.countDocuments(f)\<close> counts the records that satisfy \<open>f\<close>. A query built by
  \<^verbatim>\<open>Movie.find(f).find(g)\<close> merges \<open>g\<close> into \<open>f\<close>: when the documents share no
  field, the records returned are those that satisfy every one of them. How the store
  merges documents that share a field is not modelled (\<open>None\<close>).
\<close>

definition countDocuments :: "(qval \<Rightarrow> 'r \<Rightarrow> bool) \<Rightarrow> 'r list \<Rightarrow> qval \<Rightarrow> nat" where
  "countDocuments sat recs f = length (filter (sat f) recs)"

record queryPlan =
  conditions :: "qval list"
  selectFields :: "string option"
  sortBy :: string
  skipCount :: int
  limitCount :: int

definition matching :: "(qval \<Rightarrow> 'r \<Rightarrow> bool) \<Rightarrow> 'r list \<Rightarrow> queryPlan \<Rightarrow> 'r list option" where
  "matching sat recs plan =
     (if distinct (concat (map topKeys (conditions plan)))
      then Some (filter (\<lambda>r. list_all (\<lambda>c. sat c r) (conditions plan)) recs)
      else None)"

text \<open>
  The store's reading of a sort argument given as a string. The string is split at
  every space; each part, the empty one included, names a field, in descending order
  when it starts with \<^verbatim>\<open>-\<close>; a field named twice takes its last direction at its
  first place; the three names below are skipped. Earlier fields take precedence. A
  field whose name is a number is enumerated out of turn by the language, which is
  not modelled (\<open>None\<close>).
\<close>

datatype direction = Ascending | Descending

definition sortToken :: "string \<Rightarrow> string \<times> direction" where
  "sortToken t = (if take 1 t = ''-'' then (drop 1 t, Descending) else (t, Ascending))"

definition specialProperties :: "string list" where
  "specialProperties = [''__proto__'', ''constructor'', ''prototype'']"

definition numericName :: "string \<Rightarrow> bool" where
  "numericName f = (f \<noteq> [] \<and> list_all isDigit f)"

definition sortFields :: "string list \<Rightarrow> (string \<times> direction) list option" where
  "sortFields ts =
     (let fs = filter (\<lambda>fd. fst fd \<notin> set specialProperties) (map sortToken ts)
      in if list_ex (\<lambda>fd. numericName (fst fd)) fs then None else Some (foldl setProp [] fs))"

definition sortSpec :: "string \<Rightarrow> (string \<times> direction) list option" where
  "sortSpec arg = sortFields (splitOn (CHR '' '') arg)"

text \<open>
  The store's reading of the filter documents that the examples below use, on a
  record given by its string fields. A string asks for equality; \<^verbatim>\<open>$or\<close> asks for
  one of its alternatives; \<^verbatim>\<open>{$regex: p, $options: 'i'}\<close> asks for a match of the
  regular expression \<open>p\<close> somewhere in the field, letter case ignored. Of regular
  expressions this fragment has the characters that stand for themselves and the dot,
  which stands for any character, on printable ASCII text. Any other document is
  outside the fragment (\<open>None\<close>).
\<close>

type_synonym movie = "(string \<times> string) list"

definition lowerCase :: "char \<Rightarrow> char" where
  "lowerCase c = (if 65 \<le> (of_char c :: nat) \<and> (of_char c :: nat) \<le> 90
                  then char_of ((of_char c :: nat) + 32) else c)"

definition printable :: "string \<Rightarrow> bool" where
  "printable s = list_all (\<lambda>c. 32 \<le> (of_char c :: nat) \<and> (of_char c :: nat) < 127) s"

definition metaCharacters :: "string" where
  "metaCharacters = bslash # ''^$|?*+()[]{}''"

definition simplePattern :: "string \<Rightarrow> bool" where
  "simplePattern p = (printable p \<and> list_all (\<lambda>c. c \<notin> set metaCharacters) p)"

fun matchesHere :: "string \<Rightarrow> string \<Rightarrow> bool" where
  "matchesHere [] s = True"
| "matchesHere (p # ps) [] = False"
| "matchesHere (p # ps) (c # cs) =
     ((p = CHR ''.'' \<or> lowerCase p = lowerCase c) \<and> matchesHere ps cs)"

fun regexFind :: "string \<Rightarrow> string \<Rightarrow> bool" where
  "regexFind p [] = matchesHere p []"
| "regexFind p (c # cs) = (matchesHere p (c # cs) \<or> regexFind p cs)"

fun optAnd :: "bool option \<Rightarrow> bool option \<Rightarrow> bool option" where
  "optAnd (Some a) (Some b) = Some (a \<and> b)"
| "optAnd a b = None"

fun optOr :: "bool option \<Rightarrow> bool option \<Rightarrow> bool option" where
  "optOr (Some a) (Some b) = Some (a \<or> b)"
| "optOr a b = None"

fun fieldSatisfies :: "string option \<Rightarrow> qval \<Rightarrow> bool option" where
  "fieldSatisfies v (QStr s) = Some (v = Some s)"
| "fieldSatisfies v (QArr xs) = None"
| "fieldSatisfies v (QObj ops) =
     (case ops of
        [(k1, QStr p), (k2, QStr opt)] \<Rightarrow>
          (if k1 = ''$regex'' \<and> k2 = ''$options'' \<and> opt = ''i'' \<and> simplePattern p
           then (case v of
                   None \<Rightarrow> Some False
                 | Some x \<Rightarrow> if printable x then Some (regexFind p x) else None)
           else None)
      | _ \<Rightarrow> None)"

fun satisfies :: "qval \<Rightarrow> movie \<Rightarrow> bool option"
  and satisfiesAll :: "(string \<times> qval) list \<Rightarrow> movie \<Rightarrow> bool option"
  and satisfiesAny :: "qval list \<Rightarrow> movie \<Rightarrow> bool option"
where
  "satisfies (QObj kvs) m = satisfiesAll kvs m"
| "satisfies (QStr s) m = None"
| "satisfies (QArr xs) m = None"
| "satisfiesAll [] m = Some True"
| "satisfiesAll (kv # kvs) m =
     optAnd
       (if fst kv = ''$or''
        then (case snd kv of
                QArr alts \<Rightarrow> if alts = [] then None else satisfiesAny alts m
              | _ \<Rightarrow> None)
        else fieldSatisfies (map_of m (fst kv)) (snd kv))
       (satisfiesAll kvs m)"
| "satisfiesAny [] m = Some False"
| "satisfiesAny (a # as) m = optOr (satisfies a m) (satisfiesAny as m)"

text \<open>The fragment as a store: a record is found when the document is read and holds.\<close>

definition found :: "qval \<Rightarrow> movie \<Rightarrow> bool" where
  "found f m = (satisfies f m = Some True)"

text \<open>
  The substring reading of a search, in the words of the specification: the text occurs
  in the field, letter case ignored.
\<close>

fun occursIn :: "string \<Rightarrow> string \<Rightarrow> bool" where
  "occursIn p [] = (p = [])"
| "occursIn p (c # cs) = (prefix p (c # cs) \<or> occursIn p cs)"

definition containsIgnoreCase :: "string \<Rightarrow> string option \<Rightarrow> bool" where
  "containsIgnoreCase p v =
     (case v of None \<Rightarrow> False | Some x \<Rightarrow> occursIn (map lowerCase p) (map lowerCase x))"

section \<open>getMovies\<close>

record pageRef =
  page :: int
  limit :: int

text \<open>
  The response carries \<^verbatim>\<open>total\<close> and \<^verbatim>\<open>pagination\<close> (\<^verbatim>\<open>next\<close>, \<^verbatim>\<open>prev\<close>); its rows (\<^verbatim>\<open>data\<close>, \<^verbatim>\<open>count\<close>)
  are the store's answer to the query, which is returned here as the plan.
\<close>

record response =
  total :: int
  nextPage :: "pageRef option"
  prevPage :: "pageRef option"
  plan :: queryPlan

definition removeFields :: "string list" where
  "removeFields = [''select'', ''sort'', ''page'', ''limit'', ''search'']"

definition reqQuery :: "query \<Rightarrow> query" where
  "reqQuery q = fold deleteProp removeFields q"

definition queryStr :: "query \<Rightarrow> string" where
  "queryStr q = replaceOperators (stringify (QObj (reqQuery q)))"

definition searchCondition :: "qval \<Rightarrow> qval" where
  "searchCondition s =
     QObj [(''$or'', QArr
       [QObj [(''title'', QObj [(''$regex'', s), (''$options'', QStr ''i'')])],
        QObj [(''description'', QObj [(''$regex'', s), (''$options'', QStr ''i'')])],
        QObj [(''director'', QObj [(''$regex'', s), (''$options'', QStr ''i'')])]])]"

definition searchConditions :: "query \<Rightarrow> qval list" where
  "searchConditions q =
     (case getProp q ''search'' of
        None \<Rightarrow> []
      | Some s \<Rightarrow> if truthy (Some s) then [searchCondition s] else [])"

text \<open>
  \<^verbatim>\<open>req.query.select.split(',').join(' ')\<close>: a value that is not a string has no
  \<^verbatim>\<open>split\<close> method, and the call raises \<^verbatim>\<open>TypeError\<close>.
\<close>

definition selectOf :: "query \<Rightarrow> error + string option" where
  "selectOf q =
     (case getProp q ''select'' of
        None \<Rightarrow> Inr None
      | Some (QStr s) \<Rightarrow> if s = [] then Inr None else Inr (Some (joinSpace (splitOn (CHR '','') s)))
      | Some (QArr xs) \<Rightarrow> Inl TypeError
      | Some (QObj kvs) \<Rightarrow> Inl TypeError)"

definition sortOf :: "query \<Rightarrow> error + string" where
  "sortOf q =
     (case getProp q ''sort'' of
        None \<Rightarrow> Inr ''-createdAt''
      | Some (QStr s) \<Rightarrow> if s = [] then Inr ''-createdAt'' else Inr (joinSpace (splitOn (CHR '','') s))
      | Some (QArr xs) \<Rightarrow> Inl TypeError
      | Some (QObj kvs) \<Rightarrow> Inl TypeError)"

definition pageOf :: "query \<Rightarrow> error + int" where
  "pageOf q =
     (case parseInt10 (getProp q ''page'') of Inl e \<Rightarrow> Inl e | Inr n \<Rightarrow> Inr (orDefault n 1))"

definition limitOf :: "query \<Rightarrow> error + int" where
  "limitOf q =
     (case parseInt10 (getProp q ''limit'') of Inl e \<Rightarrow> Inl e | Inr n \<Rightarrow> Inr (orDefault n 10))"

definition getMovies :: "(qval \<Rightarrow> 'r \<Rightarrow> bool) \<Rightarrow> 'r list \<Rightarrow> query \<Rightarrow> error + response" where
  "getMovies sat recs q =
     (case JSONparse (queryStr q) of
        None \<Rightarrow> Inl SyntaxError
      | Some f \<Rightarrow>
         (case selectOf q of
            Inl e \<Rightarrow> Inl e
          | Inr sel \<Rightarrow>
             (case sortOf q of
                Inl e \<Rightarrow> Inl e
              | Inr sortArg \<Rightarrow>
                 (case pageOf q of
                    Inl e \<Rightarrow> Inl e
                  | Inr p \<Rightarrow>
                     (case limitOf q of
                        Inl e \<Rightarrow> Inl e
                      | Inr l \<Rightarrow>
                         (let page = p;
                              limit = l;
                              startIndex = (page - 1) * limit;
                              endIndex = page * limit;
                              total = int (countDocuments sat recs f)
                          in Inr \<lparr> total = total,
                                   nextPage = (if endIndex < total
                                               then Some \<lparr> page = page + 1, limit = limit \<rparr>
                                               else None),
                                   prevPage = (if startIndex > 0
                                               then Some \<lparr> page = page - 1, limit = limit \<rparr>
                                               else None),
                                   plan = \<lparr> conditions = f # searchConditions q,
                                            selectFields = sel,
                                            sortBy = sortArg,
                                            skipCount = startIndex,
                                            limitCount = limit \<rparr> \<rparr>))))))"

text \<open>
  The non-reserved parameters with every key and every string rewritten: the filter
  document that \<^verbatim>\<open>JSON.parse(queryStr)\<close> is shown to give.
\<close>

definition rewrittenFilter :: "query \<Rightarrow> qval" where
  "rewrittenFilter q = collapseKeys (mapStrings rewriteStr (QObj (reqQuery q)))"

text \<open>A collection of two records for the examples.\<close>

definition sampleMovies :: "movie list" where
  "sampleMovies =
     [[(''title'', ''Batman Begins''), (''director'', ''Christopher Nolan''), (''country'', ''USA'')],
      [(''title'', ''Up''), (''director'', ''Pete Docter''), (''country'', ''USA'')]]"

section \<open>The translation as the specification words it\<close>

text \<open>
  Section 4.1, step 2: a key in bracket position that is one of the operator tokens
  names that operator (written with \<^verbatim>\<open>$\<close> for the store); a bare key asks for
  equality with its value; any other bracket content stays as it is.
\<close>

fun specValue :: "qval \<Rightarrow> qval" where
  "specValue (QStr s) = QStr s"
| "specValue (QArr xs) = QArr (map specValue xs)"
| "specValue (QObj kvs) =
     QObj (map (\<lambda>kv. (if fst kv \<in> set operators then CHR ''$'' # fst kv else fst kv,
                       specValue (snd kv))) kvs)"

definition specFilter :: "query \<Rightarrow> qval" where
  "specFilter q = QObj (map (\<lambda>kv. (fst kv, specValue (snd kv))) (reqQuery q))"

text \<open>
  A parameter set in which no token stands alone outside bracket position: field names,
  values and other bracket contents hold no operator token as a word of its own, and
  no key repeats inside an object.
\<close>

fun plainValue :: "qval \<Rightarrow> bool" where
  "plainValue (QStr s) = (\<not> hasOperatorWord s)"
| "plainValue (QArr xs) = list_all plainValue xs"
| "plainValue (QObj kvs) =
     (distinct (map fst kvs)
      \<and> list_all (\<lambda>kv. (fst kv \<in> set operators \<or> \<not> hasOperatorWord (fst kv)) \<and> plainValue (snd kv)) kvs)"

definition plainQuery :: "query \<Rightarrow> bool" where
  "plainQuery q =
     (distinct (map fst q) \<and> list_all (\<lambda>kv. \<not> hasOperatorWord (fst kv) \<and> plainValue (snd kv)) q)"

section \<open>Words of the claims about parsing and searching\<close>

text \<open>
  A string that starts with a white-space character, and a string that starts with a
  decimal number as \<^verbatim>\<open>parseInt\<close> reads one: a digit, or a sign and a digit.
\<close>

definition startsWhiteSpace :: "string \<Rightarrow> bool" where
  "startsWhiteSpace r = list_ex (\<lambda>x. prefix x r) whiteSpace"

definition startsNumber :: "string \<Rightarrow> bool" where
  "startsNumber r =
     (case r of
        [] \<Rightarrow> False
      | c # cs \<Rightarrow>
          isDigit c \<or> ((c = CHR ''+'' \<or> c = CHR ''-'') \<and> (case cs of [] \<Rightarrow> False | d # ds \<Rightarrow> isDigit d)))"

text \<open>
  A search text in which every character stands for itself as a regular expression.
\<close>

definition literalText :: "string \<Rightarrow> bool" where
  "literalText p = (simplePattern p \<and> CHR ''.'' \<notin> set p)"

section \<open>Matching an operator token\<close>

lemma operators_word: "t \<in> set operators \<Longrightarrow> t \<noteq> [] \<and> (\<forall>c \<in> set t. isWordChar c)"
  by (auto simp: operators_def isWordChar_def)

lemma operators_head:
  "t \<in> set operators \<Longrightarrow> hd t \<in> {CHR ''g'', CHR ''l'', CHR ''i''}"
  by (auto simp: operators_def)

lemma prefix_boundary_takeWhile:
  assumes "\<forall>c \<in> set t. isWordChar c"
  shows "(prefix t s \<and> boundaryAt (drop (length t) s)) = (takeWhile isWordChar s = t)"
proof
  assume "prefix t s \<and> boundaryAt (drop (length t) s)"
  then obtain r where s: "s = t @ r" and b: "boundaryAt r"
    by (auto simp: prefix_def)
  from b have "takeWhile isWordChar r = []"
    by (cases r) (auto simp: boundaryAt_def)
  with assms show "takeWhile isWordChar s = t"
    by (simp add: s takeWhile_append2)
next
  assume tw: "takeWhile isWordChar s = t"
  have s: "s = t @ dropWhile isWordChar s"
    using takeWhile_dropWhile_id [of isWordChar s] tw by simp
  have "boundaryAt (dropWhile isWordChar s)"
  proof (cases "dropWhile isWordChar s")
    case Nil
    show ?thesis unfolding boundaryAt_def Nil by simp
  next
    case (Cons a list)
    then have "\<not> isWordChar a"
      using hd_dropWhile [of isWordChar s] by simp
    with Cons show ?thesis by (simp add: boundaryAt_def)
  qed
  moreover have "drop (length t) s = dropWhile isWordChar s"
    by (subst s) simp
  ultimately show "prefix t s \<and> boundaryAt (drop (length t) s)"
    using s by (metis prefixI)
qed

lemma matchOperator_eq:
  "matchOperator s =
     (if takeWhile isWordChar s \<in> set operators then Some (takeWhile isWordChar s) else None)"
proof (cases "matchOperator s")
  case None
  then have "\<forall>t \<in> set operators. takeWhile isWordChar s \<noteq> t"
    unfolding matchOperator_def find_None_iff
    using prefix_boundary_takeWhile operators_word by blast
  with None show ?thesis by auto
next
  case (Some t)
  then have "t \<in> set operators \<and> prefix t s \<and> boundaryAt (drop (length t) s)"
    unfolding matchOperator_def by (auto simp: find_Some_iff)
  then have "t \<in> set operators \<and> takeWhile isWordChar s = t"
    using prefix_boundary_takeWhile operators_word by blast
  with Some show ?thesis by auto
qed

lemma matchOperator_SomeD:
  "matchOperator s = Some t \<Longrightarrow> t \<in> set operators \<and> takeWhile isWordChar s = t"
  by (simp add: matchOperator_eq split: if_splits)

lemma takeWhile_append_nonword:
  "\<not> isWordChar c \<Longrightarrow> takeWhile isWordChar (xs @ c # ys) = takeWhile isWordChar xs"
  by (induction xs) auto

lemma matchOperator_append_nonword:
  "\<not> isWordChar c \<Longrightarrow> matchOperator (xs @ c # ys) = matchOperator xs"
  by (simp add: matchOperator_eq takeWhile_append_nonword)

lemma matchOperator_head:
  "x \<notin> {CHR ''g'', CHR ''l'', CHR ''i''} \<Longrightarrow> matchOperator (x # r) = None"
proof (cases "matchOperator (x # r)")
  case (Some t)
  then have t: "t \<in> set operators" "takeWhile isWordChar (x # r) = t"
    using matchOperator_SomeD by blast+
  then have "t \<noteq> []" using operators_word by blast
  with t(2) have "hd t = x" by (auto split: if_splits)
  moreover assume "x \<notin> {CHR ''g'', CHR ''l'', CHR ''i''}"
  ultimately show ?thesis using operators_head [OF t(1)] by simp
qed simp

lemma replaceFrom_copy:
  "p \<or> x \<notin> {CHR ''g'', CHR ''l'', CHR ''i''} \<Longrightarrow>
   replaceFrom p (x # r) = x # replaceFrom (isWordChar x) r"
  by (auto simp: matchOperator_head)

lemma replaceFrom_append_nonword:
  "\<not> isWordChar c \<Longrightarrow>
   replaceFrom p (xs @ c # ys) = replaceFrom p xs @ c # replaceFrom False ys"
proof (induction p xs rule: replaceFrom.induct)
  case (1 p)
  then have "matchOperator (c # ys) = None"
    using matchOperator_append_nonword [of c "[]" ys] by (simp add: matchOperator_eq operators_def)
  with 1 show ?case by simp
next
  case (2 p x xs)
  show ?case
  proof (cases "if p then None else matchOperator (x # xs)")
    case None
    then have "(if p then None else matchOperator (x # xs @ c # ys)) = None"
      using matchOperator_append_nonword [OF 2(3), of "x # xs" ys] by (simp split: if_splits)
    with None 2 show ?thesis by simp
  next
    case (Some t)
    then have m: "(if p then None else matchOperator (x # xs @ c # ys)) = Some t"
      using matchOperator_append_nonword [OF 2(3), of "x # xs" ys] by (simp split: if_splits)
    from Some have "matchOperator (x # xs) = Some t"
      by (simp split: if_splits)
    then have "takeWhile isWordChar (x # xs) = t"
      by (rule matchOperator_SomeD [THEN conjunct2])
    then have "length t \<le> Suc (length xs)"
      using length_takeWhile_le [of isWordChar "x # xs"] by simp
    then have "drop (length t - 1) (xs @ c # ys) = drop (length t - 1) xs @ c # ys"
      by simp
    with Some m "2.IH"(2) [OF Some "2.prems"] show ?thesis by simp
  qed
qed

section \<open>Escapes\<close>

lemma quoteJSON_simps:
  "quoteJSON [] = []" "quoteJSON (c # cs) = escapeChar c @ quoteJSON cs"
  "quoteJSON (a @ b) = quoteJSON a @ quoteJSON b"
  by (simp_all add: quoteJSON_def)

lemma escapeChar_word: "isWordChar c \<Longrightarrow> escapeChar c = [c]"
  by (auto simp: escapeChar_def isWordChar_def Let_def dquote_def bslash_def)

lemma quoteJSON_word: "\<forall>c \<in> set t. isWordChar c \<Longrightarrow> quoteJSON t = t"
  by (induction t) (simp_all add: quoteJSON_simps escapeChar_word)

lemma isWordChar_hexDigit: "n < 16 \<Longrightarrow> isWordChar (hexDigit n)"
  by (auto simp: hexDigit_def isWordChar_def Let_def)

lemma char_eqI: "(of_char c :: nat) = of_char d \<Longrightarrow> c = d"
  by simp

text \<open>The shapes of an escape.\<close>

lemma escapeChar_cases:
  obtains (plain) "escapeChar c = [c]" "c \<noteq> dquote" "c \<noteq> bslash" "32 \<le> (of_char c :: nat)"
  | (quote) "escapeChar c = [bslash, c]" "c = dquote \<or> c = bslash"
  | (short) x where "escapeChar c = [bslash, x]" "(of_char c :: nat) < 32"
      "x \<in> {CHR ''b'', CHR ''t'', CHR ''n'', CHR ''f'', CHR ''r''}"
      "map_of [(dquote, dquote), (bslash, bslash), (CHR ''/'', CHR ''/''),
               (CHR ''b'', CHR 0x08), (CHR ''f'', CHR 0x0C), (CHR ''n'', CHR 0x0A),
               (CHR ''r'', CHR 0x0D), (CHR ''t'', CHR 0x09)] x = Some c"
  | (long) "escapeChar c = [bslash, CHR ''u'', CHR ''0'', CHR ''0'',
               hexDigit (of_char c div 16), hexDigit (of_char c mod 16)]"
      "(of_char c :: nat) < 32"
proof -
  let ?n = "of_char c :: nat"
  consider "c = dquote \<or> c = bslash" | "c \<noteq> dquote" "c \<noteq> bslash" "?n \<in> {8, 9, 10, 12, 13}"
    | "c \<noteq> dquote" "c \<noteq> bslash" "?n \<notin> {8, 9, 10, 12, 13}" "?n < 32"
    | "c \<noteq> dquote" "c \<noteq> bslash" "32 \<le> ?n"
    by fastforce
  then show thesis
  proof cases
    case 1
    then show ?thesis by (intro quote) (auto simp: escapeChar_def Let_def dquote_def bslash_def)
  next
    case 2
    from 2(3) consider "?n = 8" | "?n = 9" | "?n = 10" | "?n = 12" | "?n = 13" by auto
    then show ?thesis
    proof cases
      case 1 
      then have "c = CHR 0x08" by (intro char_eqI) simp
      then show ?thesis by (intro short [of "CHR ''b''"]) (simp_all add: escapeChar_def Let_def dquote_def bslash_def)
    next
      case 2 
      then have "c = CHR 0x09" by (intro char_eqI) simp
      then show ?thesis by (intro short [of "CHR ''t''"]) (simp_all add: escapeChar_def Let_def dquote_def bslash_def)
    next
      case 3 
      then have "c = CHR 0x0A" by (intro char_eqI) simp
      then show ?thesis by (intro short [of "CHR ''n''"]) (simp_all add: escapeChar_def Let_def dquote_def bslash_def)
    next
      case 4
      then have "c = CHR 0x0C" by (intro char_eqI) simp
      then show ?thesis by (intro short [of "CHR ''f''"]) (simp_all add: escapeChar_def Let_def dquote_def bslash_def)
    next
      case 5
      then have "c = CHR 0x0D" by (intro char_eqI) simp
      then show ?thesis by (intro short [of "CHR ''r''"]) (simp_all add: escapeChar_def Let_def dquote_def bslash_def)
    qed
  next
    case 3
    then show ?thesis by (intro long) (auto simp: escapeChar_def Let_def)
  next
    case 4
    then show ?thesis by (intro plain) (auto simp: escapeChar_def Let_def)
  qed
qed

lemma hexValue_hexDigit: "n < 16 \<Longrightarrow> hexValue (hexDigit n) = Some n"
  by (auto simp: hexValue_def hexDigit_def Let_def)

lemma unicodeEscape_hex:
  assumes "(of_char c :: nat) < 32"
  shows "unicodeEscape [CHR ''0'', CHR ''0'', hexDigit (of_char c div 16), hexDigit (of_char c mod 16)]
         = Some c"
proof -
  let ?n = "of_char c :: nat"
  have z: "hexValue CHR ''0'' = Some 0" by (simp add: hexValue_def)
  have a: "hexValue (hexDigit (?n div 16)) = Some (?n div 16)"
    using assms by (intro hexValue_hexDigit) simp
  have b: "hexValue (hexDigit (?n mod 16)) = Some (?n mod 16)"
    by (intro hexValue_hexDigit) simp
  have "?n div 16 < 8" using assms by simp
  then show ?thesis
    by (simp add: unicodeEscape_def z a b)
qed

lemma parseString_quoteJSON:
  "parseString (quoteJSON s @ dquote # rest) = Some (s, rest)"
proof (induction s)
  case Nil
  show ?case by (simp add: quoteJSON_simps)
next
  case (Cons c s)
  show ?case
  proof (cases c rule: escapeChar_cases)
    case plain
    then show ?thesis using Cons by (simp add: quoteJSON_simps)
  next
    case quote
    then show ?thesis using Cons
      by (auto simp: quoteJSON_simps dquote_def bslash_def)
  next
    case (short x)
    from short(3) have "x \<noteq> CHR ''u''" "bslash \<noteq> dquote" by (auto simp: dquote_def bslash_def)
    then show ?thesis using Cons short(1,4)
      by (simp add: quoteJSON_simps del: map_of.simps)
  next
    case long
    have "bslash \<noteq> dquote" by (simp add: dquote_def bslash_def)
    then show ?thesis using Cons long(1) unicodeEscape_hex [OF long(2)]
      by (simp add: quoteJSON_simps)
  qed
qed

lemma takeWhile_quoteJSON: "takeWhile isWordChar (quoteJSON s) = takeWhile isWordChar s"
proof (induction s)
  case Nil
  show ?case by (simp add: quoteJSON_simps)
next
  case (Cons c s)
  have nb: "\<not> isWordChar bslash" by (simp add: isWordChar_def bslash_def)
  show ?case
  proof (cases c rule: escapeChar_cases)
    case plain
    then show ?thesis using Cons by (simp add: quoteJSON_simps)
  next
    case quote
    then have "\<not> isWordChar c" by (auto simp: isWordChar_def bslash_def dquote_def)
    then show ?thesis using quote nb by (simp add: quoteJSON_simps)
  next
    case (short x)
    then have "\<not> isWordChar c" by (auto simp: isWordChar_def Let_def)
    then show ?thesis using short nb by (simp add: quoteJSON_simps)
  next
    case long
    then have "\<not> isWordChar c" by (auto simp: isWordChar_def Let_def)
    then show ?thesis using long nb by (simp add: quoteJSON_simps)
  qed
qed

lemma matchOperator_quoteJSON: "matchOperator (quoteJSON s) = matchOperator s"
  by (simp add: matchOperator_eq takeWhile_quoteJSON)

lemma replaceFrom_escapeChar:
  assumes "p \<or> matchOperator (c # cs) = None"
  shows "replaceFrom p (escapeChar c @ quoteJSON cs)
         = escapeChar c @ replaceFrom (isWordChar c \<or> (of_char c :: nat) < 32) (quoteJSON cs)"
proof (cases c rule: escapeChar_cases)
  case plain
  have "matchOperator (c # quoteJSON cs) = matchOperator (c # cs)"
    using matchOperator_quoteJSON [of "c # cs"] plain(1) by (simp add: quoteJSON_simps)
  with assms plain show ?thesis by auto
next
  case quote
  then have "\<not> isWordChar c" by (auto simp: isWordChar_def bslash_def dquote_def)
  moreover have "\<not> (of_char c :: nat) < 32" using quote by (auto simp: bslash_def dquote_def)
  moreover have "bslash \<notin> {CHR ''g'', CHR ''l'', CHR ''i''}" "c \<notin> {CHR ''g'', CHR ''l'', CHR ''i''}"
    "\<not> isWordChar bslash"
    using quote by (auto simp: bslash_def dquote_def isWordChar_def)
  ultimately show ?thesis using quote(1)
    by (simp add: replaceFrom_copy del: replaceFrom.simps)
next
  case (short x)
  have "bslash \<notin> {CHR ''g'', CHR ''l'', CHR ''i''}" "x \<notin> {CHR ''g'', CHR ''l'', CHR ''i''}"
    "\<not> isWordChar bslash" "isWordChar x"
    using short(3) by (auto simp: bslash_def isWordChar_def)
  then show ?thesis using short(1,2)
    by (simp add: replaceFrom_copy del: replaceFrom.simps)
next
  case long
  have "bslash \<notin> {CHR ''g'', CHR ''l'', CHR ''i''}" "\<not> isWordChar bslash"
    "isWordChar CHR ''u''" "isWordChar CHR ''0''"
    by (auto simp: bslash_def isWordChar_def)
  moreover have "isWordChar (hexDigit (of_char c div 16))" "isWordChar (hexDigit (of_char c mod 16))"
    using long(2) by (auto intro!: isWordChar_hexDigit)
  ultimately show ?thesis using long
    by (simp add: replaceFrom_copy del: replaceFrom.simps)
qed

lemma replaceFrom_quoteJSON: "replaceFrom p (quoteJSON s) = quoteJSON (rewriteFrom p s)"
proof (induction p s rule: rewriteFrom.induct)
  case (1 p)
  show ?case by (simp add: quoteJSON_simps)
next
  case (2 p c cs)
  show ?case
  proof (cases "if p then None else matchOperator (c # cs)")
    case None
    then have "p \<or> matchOperator (c # cs) = None" by (simp split: if_splits)
    from replaceFrom_escapeChar [OF this] "2.IH"(1) [OF None] None
    show ?thesis by (simp add: quoteJSON_simps)
  next
    case (Some t)
    then have p: "\<not> p" and m: "matchOperator (c # cs) = Some t" by (simp_all split: if_splits)
    from matchOperator_SomeD [OF m] have t: "t \<in> set operators" "takeWhile isWordChar (c # cs) = t"
      by simp_all
    from operators_word [OF t(1)] have tw: "t \<noteq> []" "\<forall>x \<in> set t. isWordChar x" by simp_all
    define r where "r = drop (length t - 1) cs"
    have "c # cs = t @ dropWhile isWordChar (c # cs)"
      using takeWhile_dropWhile_id [of isWordChar "c # cs"] t(2) by simp
    then obtain r' where split: "c # cs = t @ r'" ..
    with tw(1) have cs: "cs = tl t @ r'" and c: "c = hd t" by (cases t; simp)+
    have r: "r = r'" unfolding r_def by (subst cs) (simp add: tw(1))
    have wc: "isWordChar c" using c tw by simp
    have "quoteJSON cs = tl t @ quoteJSON r"
      using cs r tw(2) by (simp add: quoteJSON_simps quoteJSON_word list.set_sel(2) tw(1))
    then have d: "drop (length t - 1) (quoteJSON cs) = quoteJSON r" by simp
    have m': "matchOperator (c # quoteJSON cs) = Some t"
      using matchOperator_quoteJSON [of "c # cs"] m wc by (simp add: quoteJSON_simps escapeChar_word)
    have "replaceFrom p (quoteJSON (c # cs)) = CHR ''$'' # t @ replaceFrom True (quoteJSON r)"
      using p m' d wc by (simp add: quoteJSON_simps escapeChar_word)
    also have "replaceFrom True (quoteJSON r) = quoteJSON (rewriteFrom True r)"
      using "2.IH"(2) [OF Some] by (simp add: r_def)
    also have "CHR ''$'' # t @ quoteJSON (rewriteFrom True r) = quoteJSON (rewriteFrom p (c # cs))"
      using Some tw(2) by (simp add: quoteJSON_simps quoteJSON_word r_def escapeChar_def dquote_def bslash_def)
    finally show ?thesis .
  qed
qed

section \<open>The rewrite on a serialized value\<close>

lemma nonword_punct:
  "\<not> isWordChar dquote" "\<not> isWordChar CHR '',''" "\<not> isWordChar CHR '':''"
  "\<not> isWordChar CHR ''[''" "\<not> isWordChar CHR '']''" "\<not> isWordChar CHR ''{''" "\<not> isWordChar CHR ''}''"
  by (simp_all add: isWordChar_def dquote_def)

lemma replaceFrom_punct:
  "\<not> isWordChar x \<Longrightarrow> replaceFrom p (x # r) = x # replaceFrom False r"
  using replaceFrom_append_nonword [of x p "[]" r] by simp

lemma replaceFrom_commaSep:
  assumes "xs \<noteq> []"
    and "\<And>x p rest. x \<in> set xs \<Longrightarrow> replaceFrom p (g x @ rest) = h x @ replaceFrom False rest"
  shows "replaceFrom p (commaSep (map g xs) @ rest) = commaSep (map h xs) @ replaceFrom False rest"
  using assms
proof (induction xs arbitrary: p rule: induct_list012)
  case 1
  then show ?case by simp
next
  case (2 x)
  then show ?case by simp
next
  case (3 x y zs)
  have "replaceFrom p (commaSep (map g (x # y # zs)) @ rest)
        = replaceFrom p (g x @ (CHR '','' # commaSep (map g (y # zs)) @ rest))"
    by simp
  also have "\<dots> = h x @ replaceFrom False (CHR '','' # commaSep (map g (y # zs)) @ rest)"
    using 3(4) [of x] by simp
  also have "replaceFrom False (CHR '','' # commaSep (map g (y # zs)) @ rest)
        = CHR '','' # replaceFrom False (commaSep (map g (y # zs)) @ rest)"
    by (rule replaceFrom_punct) (rule nonword_punct)
  also have "replaceFrom False (commaSep (map g (y # zs)) @ rest)
        = commaSep (map h (y # zs)) @ replaceFrom False rest"
    using 3(2) [of False] 3(4) by simp
  finally show ?case by simp
qed

lemma replaceFrom_string:
  "replaceFrom p (dquote # quoteJSON s @ dquote # rest)
   = dquote # quoteJSON (rewriteFrom False s) @ dquote # replaceFrom False rest"
  by (simp add: replaceFrom_punct nonword_punct replaceFrom_append_nonword replaceFrom_quoteJSON
        del: replaceFrom.simps)

lemma replaceFrom_stringify:
  "replaceFrom p (stringify v @ rest)
   = stringify (mapStrings (rewriteFrom False) v) @ replaceFrom False rest"
proof (induction v arbitrary: p rest)
  case (QStr s)
  show ?case using replaceFrom_string [of p s rest] by simp
next
  case (QArr xs)
  show ?case
  proof (cases "xs = []")
    case True
    then show ?thesis by (simp add: replaceFrom_punct nonword_punct del: replaceFrom.simps)
  next
    case False
    have "replaceFrom False (commaSep (map stringify xs) @ CHR '']'' # rest)
          = commaSep (map (\<lambda>x. stringify (mapStrings (rewriteFrom False) x)) xs)
            @ replaceFrom False (CHR '']'' # rest)"
      using QArr by (intro replaceFrom_commaSep [OF False]) simp
    then show ?thesis
      by (simp add: replaceFrom_punct nonword_punct comp_def del: replaceFrom.simps)
  qed
next
  case (QObj kvs)
  let ?g = "\<lambda>kv. dquote # quoteJSON (fst kv) @ dquote # CHR '':'' # stringify (snd kv)"
  let ?h = "\<lambda>kv. dquote # quoteJSON (rewriteFrom False (fst kv)) @ dquote # CHR '':'' #
                 stringify (mapStrings (rewriteFrom False) (snd kv))"
  show ?case
  proof (cases "kvs = []")
    case True
    then show ?thesis by (simp add: replaceFrom_punct nonword_punct del: replaceFrom.simps)
  next
    case False
    have member: "replaceFrom p (?g kv @ rest) = ?h kv @ replaceFrom False rest"
      if "kv \<in> set kvs" for kv p rest
    proof -
      have "snd kv \<in> Basic_BNFs.snds kv" by (cases kv) simp
      from QObj [OF that this]
      have ih: "replaceFrom False (stringify (snd kv) @ rest)
                = stringify (mapStrings (rewriteFrom False) (snd kv)) @ replaceFrom False rest" .
      have "replaceFrom p (?g kv @ rest)
            = dquote # quoteJSON (rewriteFrom False (fst kv)) @ dquote #
                replaceFrom False (CHR '':'' # stringify (snd kv) @ rest)"
        using replaceFrom_string [of p "fst kv" "CHR '':'' # stringify (snd kv) @ rest"] by simp
      then show ?thesis
        by (simp add: replaceFrom_punct nonword_punct ih del: replaceFrom.simps)
    qed
    have "replaceFrom False (commaSep (map ?g kvs) @ CHR ''}'' # rest)
          = commaSep (map ?h kvs) @ replaceFrom False (CHR ''}'' # rest)"
      by (intro replaceFrom_commaSep [OF False] member)
    then show ?thesis
      by (simp add: replaceFrom_punct nonword_punct comp_def del: replaceFrom.simps)
  qed
qed

lemma replaceOperators_stringify:
  "replaceOperators (stringify v) = stringify (mapStrings (rewriteFrom False) v)"
  using replaceFrom_stringify [of False v "[]"] by (simp add: replaceOperators_def)

section \<open>Reading the text back\<close>

lemma stringify_head:
  "\<exists>c r. stringify v = c # r \<and> c \<noteq> CHR '']'' \<and> c \<noteq> CHR ''}''"
  by (cases v) (simp_all add: dquote_def)

lemma parseElements_commaSep:
  assumes "xs \<noteq> []"
    and "\<And>x n rest. x \<in> set xs \<Longrightarrow> 2 * length (stringify x) \<le> n \<Longrightarrow>
           parseValue n (stringify x @ rest) = Some (collapseKeys x, rest)"
    and "2 * length (commaSep (map stringify xs)) + 1 \<le> m"
  shows "parseElements m (commaSep (map stringify xs) @ CHR '']'' # rest)
         = Some (map collapseKeys xs, rest)"
  using assms
proof (induction xs arbitrary: m rule: induct_list012)
  case 1
  then show ?case by simp
next
  case (2 x)
  from 2(3) obtain k where m: "m = Suc k" by (cases m) auto
  with 2(3) have "2 * length (stringify x) \<le> k" by simp
  then have "parseValue k (stringify x @ CHR '']'' # rest) = Some (collapseKeys x, CHR '']'' # rest)"
    using 2(2) by simp
  then show ?case by (simp add: m)
next
  case (3 x y zs)
  from 3(5) obtain k where m: "m = Suc k" by (cases m) auto
  let ?tail = "commaSep (map stringify (y # zs))"
  have len: "length (commaSep (map stringify (x # y # zs))) = length (stringify x) + 1 + length ?tail"
    by simp
  with 3(5) m have k1: "2 * length (stringify x) \<le> k" and k2: "2 * length ?tail + 1 \<le> k"
    by simp_all
  have "parseValue k (stringify x @ CHR '','' # ?tail @ CHR '']'' # rest)
        = Some (collapseKeys x, CHR '','' # ?tail @ CHR '']'' # rest)"
    using 3(4) [of x k] k1 by simp
  moreover have "parseElements k (?tail @ CHR '']'' # rest) = Some (map collapseKeys (y # zs), rest)"
    using 3(2) [of k] 3(4) k2 by simp
  ultimately show ?case by (simp add: m)
qed

lemma parseMembers_commaSep:
  fixes kvs :: "(string \<times> qval) list"
  defines "g \<equiv> \<lambda>kv. dquote # quoteJSON (fst kv) @ dquote # CHR '':'' # stringify (snd kv)"
  assumes "kvs \<noteq> []"
    and "\<And>kv n rest. kv \<in> set kvs \<Longrightarrow> 2 * length (stringify (snd kv)) \<le> n \<Longrightarrow>
           parseValue n (stringify (snd kv) @ rest) = Some (collapseKeys (snd kv), rest)"
    and "2 * length (commaSep (map g kvs)) + 1 \<le> m"
  shows "parseMembers m (commaSep (map g kvs) @ CHR ''}'' # rest)
         = Some (map (\<lambda>kv. (fst kv, collapseKeys (snd kv))) kvs, rest)"
  using assms(2-)
proof (induction kvs arbitrary: m rule: induct_list012)
  case 1
  then show ?case by simp
next
  case (2 kv)
  from 2(3) obtain k where m: "m = Suc k" by (cases m) auto
  with 2(3) have "2 * length (stringify (snd kv)) \<le> k" by (simp add: g_def)
  then have "parseValue k (stringify (snd kv) @ CHR ''}'' # rest)
             = Some (collapseKeys (snd kv), CHR ''}'' # rest)"
    using 2(2) by simp
  then show ?case
    using parseString_quoteJSON [of "fst kv" "CHR '':'' # stringify (snd kv) @ CHR ''}'' # rest"]
    by (simp add: m g_def)
next
  case (3 kv y zs)
  from 3(5) obtain k where m: "m = Suc k" by (cases m) auto
  let ?tail = "commaSep (map g (y # zs))"
  have len: "length (commaSep (map g (kv # y # zs))) = length (g kv) + 1 + length ?tail"
    by simp
  with 3(5) m have k1: "2 * length (stringify (snd kv)) \<le> k" and k2: "2 * length ?tail + 1 \<le> k"
    by (simp_all add: g_def)
  have "parseValue k (stringify (snd kv) @ CHR '','' # ?tail @ CHR ''}'' # rest)
        = Some (collapseKeys (snd kv), CHR '','' # ?tail @ CHR ''}'' # rest)"
    using 3(4) [of kv k] k1 by simp
  moreover have "parseMembers k (?tail @ CHR ''}'' # rest)
        = Some (map (\<lambda>kv. (fst kv, collapseKeys (snd kv))) (y # zs), rest)"
    using 3(2) [of k] 3(4) k2 by simp
  moreover have "commaSep (map g (kv # y # zs)) @ CHR ''}'' # rest
        = dquote # quoteJSON (fst kv) @ dquote # CHR '':'' # stringify (snd kv) @ CHR '','' # ?tail @ CHR ''}'' # rest"
    by (simp add: g_def)
  ultimately show ?case
    using parseString_quoteJSON [of "fst kv" "CHR '':'' # stringify (snd kv) @ CHR '','' # ?tail @ CHR ''}'' # rest"]
    by (simp add: m del: commaSep.simps)
qed

lemma parseValue_stringify:
  "2 * length (stringify v) \<le> n \<Longrightarrow>
   parseValue n (stringify v @ rest) = Some (collapseKeys v, rest)"
proof (induction v arbitrary: n rest)
  case (QStr s)
  then obtain k where n: "n = Suc k" by (cases n) auto
  show ?case using parseString_quoteJSON [of s rest] by (simp add: n)
next
  case (QArr xs)
  from QArr(2) obtain k where n: "n = Suc k" by (cases n) auto
  show ?case
  proof (cases "xs = []")
    case True
    then show ?thesis by (simp add: n dquote_def)
  next
    case False
    let ?body = "commaSep (map stringify xs)"
    from False obtain x xs' where xs: "xs = x # xs'" by (cases xs) auto
    from stringify_head [of x] obtain c r where "stringify x = c # r" "c \<noteq> CHR '']''" by blast
    then have hd: "take 1 (?body @ CHR '']'' # rest) \<noteq> '']''"
      by (cases xs') (simp_all add: xs)
    have "2 * length ?body + 1 \<le> k" using QArr(2) n by simp
    then have "parseElements k (?body @ CHR '']'' # rest) = Some (map collapseKeys xs, rest)"
      using QArr(1) by (intro parseElements_commaSep [OF False]) simp_all
    then show ?thesis using hd by (simp add: n dquote_def)
  qed
next
  case (QObj kvs)
  from QObj(2) obtain k where n: "n = Suc k" by (cases n) auto
  let ?g = "\<lambda>kv. dquote # quoteJSON (fst kv) @ dquote # CHR '':'' # stringify (snd kv)"
  show ?case
  proof (cases "kvs = []")
    case True
    then show ?thesis by (simp add: n dquote_def)
  next
    case False
    let ?body = "commaSep (map ?g kvs)"
    from False obtain x xs' where xs: "kvs = x # xs'" by (cases kvs) auto
    have hd: "take 1 (?body @ CHR ''}'' # rest) \<noteq> ''}''"
      by (cases xs') (simp_all add: xs dquote_def)
    have "2 * length ?body + 1 \<le> k" using QObj(2) n by simp
    moreover have "parseValue n (stringify (snd kv) @ rest) = Some (collapseKeys (snd kv), rest)"
      if "kv \<in> set kvs" "2 * length (stringify (snd kv)) \<le> n" for kv n rest
    proof -
      have "snd kv \<in> Basic_BNFs.snds kv" by (cases kv) simp
      from QObj(1) [OF that(1) this that(2)] show ?thesis .
    qed
    ultimately have "parseMembers k (?body @ CHR ''}'' # rest)
        = Some (map (\<lambda>kv. (fst kv, collapseKeys (snd kv))) kvs, rest)"
      by (intro parseMembers_commaSep [OF False])
    then show ?thesis using hd by (simp add: n dquote_def)
  qed
qed

lemma JSONparse_stringify: "JSONparse (stringify v) = Some (collapseKeys v)"
  using parseValue_stringify [of v "2 * length (stringify v)" "[]"]
  by (simp add: JSONparse_def)

text \<open>
  The filter handed to the store: \<^verbatim>\<open>JSON.parse\<close> never fails on the rewritten text,
  and gives the non-reserved parameters with every key and every string rewritten.
\<close>

lemma rewriteStr_eq: "rewriteFrom False = rewriteStr"
  by (rule ext) (simp add: rewriteStr_def)

lemma JSONparse_queryStr:
  "JSONparse (queryStr q) = Some (collapseKeys (mapStrings rewriteStr (QObj (reqQuery q))))"
  by (simp only: queryStr_def replaceOperators_stringify JSONparse_stringify rewriteStr_eq)

section \<open>The filter and the response\<close>

lemma reqQuery_filter: "reqQuery q = filter (\<lambda>kv. fst kv \<notin> set removeFields) q"
  by (induction q) (auto simp: reqQuery_def removeFields_def deleteProp_def)

lemma reqQuery_idem: "reqQuery (reqQuery q) = reqQuery q"
  by (simp add: reqQuery_filter)

lemma setProp_keys: "fst ` set (setProp xs kv) = insert (fst kv) (fst ` set xs)"
  by (induction xs) auto

lemma foldl_setProp_keys: "fst ` set (foldl setProp acc kvs) = fst ` set acc \<union> fst ` set kvs"
  by (induction kvs arbitrary: acc) (auto simp: setProp_keys)

lemma rewriteFrom_changed:
  "rewriteFrom p s \<noteq> s \<Longrightarrow> CHR ''$'' \<in> set (rewriteFrom p s)"
proof (induction p s rule: rewriteFrom.induct)
  case (1 p)
  then show ?case by simp
next
  case (2 p c cs)
  then show ?case by (cases "if p then None else matchOperator (c # cs)") auto
qed

lemma rewriteStr_reserved: "rewriteStr k \<in> set removeFields \<Longrightarrow> rewriteStr k = k"
proof (rule ccontr)
  assume r: "rewriteStr k \<in> set removeFields" and "rewriteStr k \<noteq> k"
  then have "CHR ''$'' \<in> set (rewriteStr k)"
    using rewriteFrom_changed [of False k] by (simp add: rewriteStr_def)
  with r show False by (auto simp: removeFields_def)
qed

lemma rewriteFrom_plain:
  "\<not> operatorWordFrom p s \<Longrightarrow> (p \<longrightarrow> p') \<Longrightarrow> rewriteFrom p' s = s"
proof (induction s arbitrary: p p')
  case Nil
  show ?case by simp
next
  case (Cons c cs)
  from Cons.prems have m: "p \<or> matchOperator (c # cs) = None"
    and t: "\<not> operatorWordFrom (isWordChar c) cs" by auto
  from m Cons.prems(2) have "(if p' then None else matchOperator (c # cs)) = None" by auto
  moreover have "rewriteFrom (isWordChar c \<or> (of_char c :: nat) < 32) cs = cs"
    using Cons.IH [OF t] by simp
  ultimately show ?case by simp
qed

lemma rewriteStr_plain: "\<not> hasOperatorWord s \<Longrightarrow> rewriteStr s = s"
  using rewriteFrom_plain [of False s False] by (simp add: hasOperatorWord_def rewriteStr_def)

lemma rewriteStr_operators: "list_all (\<lambda>op. rewriteStr op = CHR ''$'' # op) operators"
  by code_simp

lemma rewriteStr_operator: "op \<in> set operators \<Longrightarrow> rewriteStr op = CHR ''$'' # op"
  using rewriteStr_operators by (simp add: list_all_iff)

lemma getMovies_eq:
  "getMovies sat recs q =
     (case selectOf q of
        Inl e \<Rightarrow> Inl e
      | Inr sel \<Rightarrow>
         (case sortOf q of
            Inl e \<Rightarrow> Inl e
          | Inr srt \<Rightarrow>
             (case pageOf q of
                Inl e \<Rightarrow> Inl e
              | Inr p \<Rightarrow>
                 (case limitOf q of
                    Inl e \<Rightarrow> Inl e
                  | Inr l \<Rightarrow>
                     Inr \<lparr> total = int (countDocuments sat recs (rewrittenFilter q)),
                           nextPage = (if p * l < int (countDocuments sat recs (rewrittenFilter q))
                                       then Some \<lparr> page = p + 1, limit = l \<rparr> else None),
                           prevPage = (if (p - 1) * l > 0
                                       then Some \<lparr> page = p - 1, limit = l \<rparr> else None),
                           plan = \<lparr> conditions = rewrittenFilter q # searchConditions q,
                                    selectFields = sel, sortBy = srt,
                                    skipCount = (p - 1) * l, limitCount = l \<rparr> \<rparr>))))"
  by (simp only: getMovies_def JSONparse_queryStr rewrittenFilter_def [symmetric] option.case Let_def)

lemma getMovies_InrD:
  assumes "getMovies sat recs q = Inr r"
  shows "total r = int (countDocuments sat recs (rewrittenFilter q))"
    and "conditions (plan r) = rewrittenFilter q # searchConditions q"
    and "sortOf q = Inr (sortBy (plan r))"
    and "selectOf q = Inr (selectFields (plan r))"
    and "\<exists>p l. pageOf q = Inr p \<and> limitOf q = Inr l
           \<and> skipCount (plan r) = (p - 1) * l \<and> limitCount (plan r) = l
           \<and> nextPage r = (if p * l < total r then Some \<lparr> page = p + 1, limit = l \<rparr> else None)
           \<and> prevPage r = (if (p - 1) * l > 0 then Some \<lparr> page = p - 1, limit = l \<rparr> else None)"
  using assms by (auto simp: getMovies_eq split: sum.splits)




lemma setProp_distinct: "distinct (map fst xs) \<Longrightarrow> distinct (map fst (setProp xs kv))"
proof (induction xs)
  case Nil
  show ?case by simp
next
  case (Cons x xs)
  have k: "fst ` set (setProp xs kv) = insert (fst kv) (fst ` set xs)" by (rule setProp_keys)
  show ?case
  proof (cases "fst x = fst kv")
    case True
    with Cons.prems show ?thesis by simp
  next
    case False
    with Cons k show ?thesis by simp
  qed
qed

lemma foldl_setProp_distinct_keys:
  "distinct (map fst acc) \<Longrightarrow> distinct (map fst (foldl setProp acc kvs))"
  by (induction kvs arbitrary: acc) (simp_all add: setProp_distinct)

lemma rewriteFrom_changed_token:
  "rewriteFrom p s \<noteq> s \<Longrightarrow>
   \<exists>a t b. t \<in> set operators \<and> rewriteFrom p s = a @ CHR ''$'' # t @ b"
proof (induction p s rule: rewriteFrom.induct)
  case (1 p)
  then show ?case by simp
next
  case (2 p c cs)
  show ?case
  proof (cases "if p then None else matchOperator (c # cs)")
    case None
    with 2(3) have "rewriteFrom (isWordChar c \<or> (of_char c :: nat) < 32) cs \<noteq> cs" by simp
    from "2.IH"(1) [OF None this] obtain a t b where
      "t \<in> set operators" "rewriteFrom (isWordChar c \<or> (of_char c :: nat) < 32) cs = a @ CHR ''$'' # t @ b"
      by blast
    with None have "t \<in> set operators \<and> rewriteFrom p (c # cs) = (c # a) @ CHR ''$'' # t @ b"
      by simp
    then show ?thesis by blast
  next
    case (Some t)
    then have "matchOperator (c # cs) = Some t" by (simp split: if_splits)
    then have "t \<in> set operators" using matchOperator_SomeD by blast
    moreover from Some have "rewriteFrom p (c # cs)
        = [] @ CHR ''$'' # t @ rewriteFrom True (drop (length t - 1) cs)" by simp
    ultimately show ?thesis by blast
  qed
qed

lemma rewriteStr_or: "rewriteStr k = ''$or'' \<Longrightarrow> k = ''$or''"
proof (rule ccontr)
  assume r: "rewriteStr k = ''$or''" and "k \<noteq> ''$or''"
  then have "rewriteFrom False k \<noteq> k" by (simp add: rewriteStr_def)
  from rewriteFrom_changed_token [OF this] r obtain a t b where
    t: "t \<in> set operators" and e: "''$or'' = a @ CHR ''$'' # t @ b"
    by (auto simp: rewriteStr_def)
  from t have l: "2 \<le> length t" by (auto simp: operators_def)
  from e have "length (''$or'') = length (a @ CHR ''$'' # t @ b)" by (rule arg_cong)
  then have "length a + length t + length b = 2" by simp
  with l have "length a = 0" "length b = 0" by linarith+
  then have "a = []" "b = []" by simp_all
  with e have "t = ''or''" by simp
  with t show False by (simp add: operators_def)
qed

section \<open>The sort argument\<close>

lemma splitOn_notin: "d \<notin> set a \<Longrightarrow> splitOn d a = [a]"
  by (induction a) auto

lemma splitOn_append: "d \<notin> set a \<Longrightarrow> splitOn d (a @ d # b) = a # splitOn d b"
  by (induction a) auto

lemma splitOn_joinSpace:
  "ts \<noteq> [] \<Longrightarrow> \<forall>t \<in> set ts. CHR '' '' \<notin> set t \<Longrightarrow> splitOn (CHR '' '') (joinSpace ts) = ts"
  by (induction ts rule: induct_list012) (simp_all add: splitOn_notin splitOn_append)

lemma splitOn_nonempty: "splitOn d s \<noteq> []"
  by (induction s) (auto split: list.splits)

section \<open>Parameter sets without stray operator tokens\<close>

lemma foldl_setProp_distinct:
  "distinct (map fst (acc @ kvs)) \<Longrightarrow> foldl setProp acc kvs = acc @ kvs"
proof (induction kvs arbitrary: acc)
  case Nil
  show ?case by simp
next
  case (Cons kv kvs)
  have sp: "setProp acc kv = acc @ [kv]" if "fst kv \<notin> fst ` set acc" for acc
    using that by (induction acc) auto
  from Cons.prems have "fst kv \<notin> fst ` set acc" by auto
  then have "setProp acc kv = acc @ [kv]" by (rule sp)
  moreover from Cons.prems have "distinct (map fst ((acc @ [kv]) @ kvs))" by simp
  ultimately show ?case using Cons.IH [of "acc @ [kv]"] by simp
qed

lemma operator_key_marked: "list_all (\<lambda>op. hasOperatorWord (CHR ''$'' # op)) operators"
  by code_simp

lemma specKey_inj:
  assumes "a \<in> set operators \<or> \<not> hasOperatorWord a" and "b \<in> set operators \<or> \<not> hasOperatorWord b"
    and "(if a \<in> set operators then CHR ''$'' # a else a) = (if b \<in> set operators then CHR ''$'' # b else b)"
  shows "a = b"
  using assms operator_key_marked by (auto simp: list_all_iff split: if_splits)

lemma specKey_rewrite:
  "k \<in> set operators \<or> \<not> hasOperatorWord k \<Longrightarrow>
   rewriteStr k = (if k \<in> set operators then CHR ''$'' # k else k)"
  using rewriteStr_operator rewriteStr_plain operator_key_marked
  by (auto simp: list_all_iff)

lemma mapStrings_plain: "plainValue v \<Longrightarrow> mapStrings rewriteStr v = specValue v"
proof (induction v)
  case (QStr s)
  then show ?case by (simp add: rewriteStr_plain)
next
  case (QArr xs)
  then show ?case by (simp add: list_all_iff)
next
  case (QObj kvs)
  have "(rewriteStr (fst kv), mapStrings rewriteStr (snd kv))
        = (if fst kv \<in> set operators then CHR ''$'' # fst kv else fst kv, specValue (snd kv))"
    if "kv \<in> set kvs" for kv
  proof -
    from that QObj.prems have k: "fst kv \<in> set operators \<or> \<not> hasOperatorWord (fst kv)"
      and p: "plainValue (snd kv)" by (auto simp: list_all_iff)
    have "snd kv \<in> Basic_BNFs.snds kv" by (cases kv) simp
    from QObj.IH [OF that this p] specKey_rewrite [OF k] show ?thesis by simp
  qed
  then show ?case by simp
qed

lemma collapseKeys_spec: "plainValue v \<Longrightarrow> collapseKeys (specValue v) = specValue v"
proof (induction v)
  case (QStr s)
  show ?case by simp
next
  case (QArr xs)
  then show ?case by (simp add: list_all_iff map_idI)
next
  case (QObj kvs)
  let ?key = "\<lambda>k. if k \<in> set operators then CHR ''$'' # k else k"
  have inner: "collapseKeys (specValue (snd kv)) = specValue (snd kv)" if "kv \<in> set kvs" for kv
  proof -
    from that QObj.prems have p: "plainValue (snd kv)" by (auto simp: list_all_iff)
    have "snd kv \<in> Basic_BNFs.snds kv" by (cases kv) simp
    from QObj.IH [OF that this p] show ?thesis .
  qed
  have "inj_on ?key (fst ` set kvs)"
  proof (rule inj_onI)
    fix a b assume "a \<in> fst ` set kvs" "b \<in> fst ` set kvs" "?key a = ?key b"
    with QObj.prems show "a = b"
      by (intro specKey_inj [of a b]) (auto simp: list_all_iff)
  qed
  with QObj.prems have "distinct (map (\<lambda>kv. ?key (fst kv)) kvs)"
    by (simp add: distinct_map comp_def inj_on_def)
  then have ff: "foldl setProp [] (map (\<lambda>kv. (?key (fst kv), specValue (snd kv))) kvs)
             = map (\<lambda>kv. (?key (fst kv), specValue (snd kv))) kvs"
    using foldl_setProp_distinct [of "[]" "map (\<lambda>kv. (?key (fst kv), specValue (snd kv))) kvs"]
    by (simp add: comp_def)
  have mm: "map (\<lambda>kv. (fst kv, collapseKeys (snd kv))) (map (\<lambda>kv. (?key (fst kv), specValue (snd kv))) kvs)
             = map (\<lambda>kv. (?key (fst kv), specValue (snd kv))) kvs"
    using inner by simp
  have "collapseKeys (specValue (QObj kvs))
        = QObj (foldl setProp [] (map (\<lambda>kv. (fst kv, collapseKeys (snd kv)))
                 (map (\<lambda>kv. (?key (fst kv), specValue (snd kv))) kvs)))"
    by (simp only: specValue.simps collapseKeys.simps)
  also have "\<dots> = QObj (map (\<lambda>kv. (?key (fst kv), specValue (snd kv))) kvs)"
    by (simp only: mm ff)
  also have "\<dots> = specValue (QObj kvs)"
    by (simp only: specValue.simps)
  finally show ?case .
qed

lemma plainQuery_reqQuery: "plainQuery q \<Longrightarrow> plainQuery (reqQuery q)"
  by (simp add: plainQuery_def reqQuery_filter list_all_iff distinct_map_filter)

lemma rewrittenFilter_plain:
  assumes "plainQuery (reqQuery q)"
  shows "rewrittenFilter q = specFilter q"
proof -
  from assms
  have d: "distinct (map fst (reqQuery q))"
    and p: "\<And>kv. kv \<in> set (reqQuery q) \<Longrightarrow> \<not> hasOperatorWord (fst kv) \<and> plainValue (snd kv)"
    by (auto simp: plainQuery_def list_all_iff)
  have e: "(rewriteStr (fst kv), collapseKeys (mapStrings rewriteStr (snd kv))) = (fst kv, specValue (snd kv))"
    if "kv \<in> set (reqQuery q)" for kv
    using p [OF that] by (simp add: rewriteStr_plain mapStrings_plain collapseKeys_spec)
  have m: "map (\<lambda>kv. (fst kv, collapseKeys (snd kv)))
             (map (\<lambda>kv. (rewriteStr (fst kv), mapStrings rewriteStr (snd kv))) (reqQuery q))
           = map (\<lambda>kv. (fst kv, specValue (snd kv))) (reqQuery q)"
    using e by simp
  have "distinct (map fst (map (\<lambda>kv. (fst kv, specValue (snd kv))) (reqQuery q)))"
    using d by (simp add: comp_def)
  then have f: "foldl setProp [] (map (\<lambda>kv. (fst kv, specValue (snd kv))) (reqQuery q))
             = map (\<lambda>kv. (fst kv, specValue (snd kv))) (reqQuery q)"
    using foldl_setProp_distinct [of "[]" "map (\<lambda>kv. (fst kv, specValue (snd kv))) (reqQuery q)"]
    by simp
  have "rewrittenFilter q
        = QObj (foldl setProp [] (map (\<lambda>kv. (fst kv, specValue (snd kv))) (reqQuery q)))"
    unfolding rewrittenFilter_def by (simp only: mapStrings.simps collapseKeys.simps m)
  also have "\<dots> = specFilter q"
    by (simp only: f specFilter_def)
  finally show ?thesis .
qed

section \<open>Reading an integer\<close>

lemma whiteSpace_prefix_free:
  "list_all (\<lambda>x. list_all (\<lambda>y. \<not> prefix x y \<or> x = y) whiteSpace) whiteSpace"
  by code_simp

lemma whiteSpace_heads:
  "list_all (\<lambda>x. x \<noteq> [] \<and> \<not> isDigit (hd x) \<and> hd x \<noteq> CHR ''+'' \<and> hd x \<noteq> CHR ''-'') whiteSpace"
  by code_simp

lemma wsLength_ws:
  assumes "x \<in> set whiteSpace"
  shows "wsLength (x @ r) = length x"
proof -
  have "\<exists>w. w \<in> set whiteSpace \<and> prefix w (x @ r)" using assms by auto
  then obtain y where f: "List.find (\<lambda>w. prefix w (x @ r)) whiteSpace = Some y"
    by (cases "List.find (\<lambda>w. prefix w (x @ r)) whiteSpace") (auto simp: find_None_iff)
  then have y: "y \<in> set whiteSpace" "prefix y (x @ r)"
    by (auto simp: find_Some_iff)
  have "prefix x (x @ r)" by simp
  with y(2) have "prefix x y \<or> prefix y x" by (metis prefix_same_cases)
  with assms y(1) whiteSpace_prefix_free have "x = y" by (auto simp: list_all_iff)
  with f show ?thesis by (simp add: wsLength_def)
qed

lemma wsLength_none: "\<not> startsWhiteSpace r \<Longrightarrow> wsLength r = 0"
  by (auto simp: startsWhiteSpace_def wsLength_def list_ex_iff find_None_iff split: option.splits
           dest: find_Some_iff [THEN iffD1])

lemma skipWhiteSpace_ws:
  assumes "x \<in> set whiteSpace"
  shows "skipWhiteSpace (x @ r) = skipWhiteSpace r"
proof -
  from assms whiteSpace_heads have "x \<noteq> []" by (simp add: list_all_iff)
  then obtain c x' where x: "x = c # x'" by (cases x) auto
  have "wsLength (c # x' @ r) = Suc (length x')"
    using wsLength_ws [OF assms, of r] by (simp add: x)
  then show ?thesis by (simp add: x)
qed

lemma skipWhiteSpace_concat:
  "set ws \<subseteq> set whiteSpace \<Longrightarrow> skipWhiteSpace (concat ws @ r) = skipWhiteSpace r"
  by (induction ws) (simp_all add: skipWhiteSpace_ws)

lemma skipWhiteSpace_none: "\<not> startsWhiteSpace r \<Longrightarrow> skipWhiteSpace r = r"
  using wsLength_none [of r] by (cases r) simp_all

lemma startsNumber_not_ws: "startsNumber r \<Longrightarrow> \<not> startsWhiteSpace r"
proof
  assume n: "startsNumber r" and "startsWhiteSpace r"
  then obtain x where x: "x \<in> set whiteSpace" "prefix x r"
    by (auto simp: startsWhiteSpace_def list_ex_iff)
  with whiteSpace_heads have h: "x \<noteq> []" "\<not> isDigit (hd x)" "hd x \<noteq> CHR ''+''" "hd x \<noteq> CHR ''-''"
    by (auto simp: list_all_iff)
  from x(2) h(1) obtain cs where "r = hd x # cs"
    by (cases x; cases r) auto
  with n h show False by (auto simp: startsNumber_def)
qed

lemma isDigit_not_sign: "isDigit c \<Longrightarrow> c \<noteq> CHR ''+'' \<and> c \<noteq> CHR ''-''"
  by (auto simp: isDigit_def)

lemma takeWhile_digits:
  assumes "list_all isDigit ds" and "case r of [] \<Rightarrow> True | c # cs \<Rightarrow> \<not> isDigit c"
  shows "takeWhile isDigit (ds @ r) = ds"
proof -
  from assms(2) have "takeWhile isDigit r = []" by (cases r) auto
  with assms(1) show ?thesis by (simp add: takeWhile_append2 list_all_iff)
qed

lemma parseDecimal_number:
  assumes "set ws \<subseteq> set whiteSpace" and "sg \<in> {[], ''+'', ''-''}"
    and "ds \<noteq> []" and "list_all isDigit ds"
    and "case r of [] \<Rightarrow> True | c # cs \<Rightarrow> \<not> isDigit c"
  shows "parseDecimal (concat ws @ sg @ ds @ r)
         = Some ((if sg = ''-'' then - 1 else 1) * digitsValue ds)"
proof -
  from assms(3) obtain d ds' where ds: "ds = d # ds'" by (cases ds) auto
  with assms(4) have d: "isDigit d" by simp
  have "startsNumber (sg @ ds @ r)"
    using assms(2) d by (auto simp: startsNumber_def ds)
  then have "skipWhiteSpace (sg @ ds @ r) = sg @ ds @ r"
    by (intro skipWhiteSpace_none startsNumber_not_ws)
  then have t: "skipWhiteSpace (concat ws @ sg @ ds @ r) = sg @ ds @ r"
    using skipWhiteSpace_concat [OF assms(1), of "sg @ ds @ r"] by simp
  have tw: "takeWhile isDigit (ds @ r) = ds" using assms(4,5) by (rule takeWhile_digits)
  from assms(2) consider "sg = []" | "sg = ''+''" | "sg = ''-''" by auto
  then show ?thesis
  proof cases
    case 1
    have "take 1 (ds @ r) = [d]" by (simp add: ds)
    with 1 t tw assms(3) isDigit_not_sign [OF d] show ?thesis
      by (simp add: parseDecimal_def Let_def)
  next
    case 2
    with t tw assms(3) show ?thesis by (simp add: parseDecimal_def Let_def)
  next
    case 3
    with t tw assms(3) show ?thesis by (simp add: parseDecimal_def Let_def)
  qed
qed







section \<open>The store's readings\<close>

lemma matchesHere_literal:
  "CHR ''.'' \<notin> set p \<Longrightarrow> matchesHere p s = prefix (map lowerCase p) (map lowerCase s)"
  by (induction p s rule: matchesHere.induct) auto

lemma regexFind_literal:
  "CHR ''.'' \<notin> set p \<Longrightarrow> regexFind p s = occursIn (map lowerCase p) (map lowerCase s)"
  by (induction s) (auto simp: matchesHere_literal)

lemma fieldSatisfies_literal:
  assumes "literalText p" and "case v of None \<Rightarrow> True | Some x \<Rightarrow> printable x"
  shows "fieldSatisfies v (QObj [(''$regex'', QStr p), (''$options'', QStr ''i'')])
         = Some (containsIgnoreCase p v)"
  using assms
  by (auto simp: literalText_def containsIgnoreCase_def regexFind_literal split: option.splits)

lemma satisfies_searchCondition:
  assumes "literalText p"
    and "list_all (\<lambda>k. case map_of m k of None \<Rightarrow> True | Some x \<Rightarrow> printable x)
           [''title'', ''description'', ''director'']"
  shows "satisfies (searchCondition (QStr p)) m
         = Some (containsIgnoreCase p (map_of m ''title'')
                 \<or> containsIgnoreCase p (map_of m ''description'')
                 \<or> containsIgnoreCase p (map_of m ''director''))"
proof -
  have "fieldSatisfies (map_of m k) (QObj [(''$regex'', QStr p), (''$options'', QStr ''i'')])
        = Some (containsIgnoreCase p (map_of m k))"
    if "k \<in> {''title'', ''description'', ''director''}" for k
    using that assms(2) by (intro fieldSatisfies_literal [OF assms(1)]) auto
  then show ?thesis
    by (simp add: searchCondition_def del: fieldSatisfies.simps)
qed

lemma sortFields_distinct:
  assumes "distinct (map (\<lambda>t. fst (sortToken t)) ts)"
    and "list_all (\<lambda>t. fst (sortToken t) \<notin> set specialProperties \<and> \<not> numericName (fst (sortToken t))) ts"
  shows "sortFields ts = Some (map sortToken ts)"
proof -
  from assms(2) have f: "filter (\<lambda>fd. fst fd \<notin> set specialProperties) (map sortToken ts) = map sortToken ts"
    by (simp add: list_all_iff filter_map comp_def)
  from assms(2) have n: "\<not> list_ex (\<lambda>fd. numericName (fst fd)) (map sortToken ts)"
    by (auto simp: list_all_iff list_ex_iff)
  from assms(1) have "distinct (map fst ([] @ map sortToken ts))" by (simp add: comp_def)
  then have "foldl setProp [] (map sortToken ts) = map sortToken ts"
    using foldl_setProp_distinct [of "[]" "map sortToken ts"] by simp
  with f n show ?thesis by (simp add: sortFields_def Let_def)
qed

lemma topKeys_rewrittenFilter:
  "set (topKeys (rewrittenFilter q)) = rewriteStr ` fst ` set (reqQuery q)"
  by (simp add: rewrittenFilter_def foldl_setProp_keys image_image)

lemma distinct_rewrittenFilter: "distinct (topKeys (rewrittenFilter q))"
  using foldl_setProp_distinct_keys [of "[]"] by (simp add: rewrittenFilter_def)

lemma or_not_key:
  assumes "getProp q ''$or'' = None"
  shows "''$or'' \<notin> set (topKeys (rewrittenFilter q))"
proof
  assume "''$or'' \<in> set (topKeys (rewrittenFilter q))"
  then obtain kv where kv: "kv \<in> set (reqQuery q)" "rewriteStr (fst kv) = ''$or''"
    by (auto simp: topKeys_rewrittenFilter)
  then have "fst kv = ''$or''" using rewriteStr_or by blast
  with kv(1) have "''$or'' \<in> fst ` set q" by (force simp: reqQuery_filter)
  with assms show False by (simp add: getProp_def map_of_eq_None_iff)
qed

lemma matching_search:
  assumes "getProp q ''$or'' = None"
  shows "matching sat recs \<lparr> conditions = [rewrittenFilter q, searchCondition s], selectFields = sel,
            sortBy = srt, skipCount = sk, limitCount = lm \<rparr>
         = Some (filter (\<lambda>x. sat (rewrittenFilter q) x \<and> sat (searchCondition s) x) recs)"
  using or_not_key [OF assms] distinct_rewrittenFilter [of q]
  by (simp add: matching_def searchCondition_def)

lemma sortSpec_joinSpace:
  assumes "list_all (\<lambda>t. CHR '' '' \<notin> set t) ts" and "ts \<noteq> []"
  shows "sortSpec (joinSpace ts) = sortFields ts"
proof -
  from assms have "splitOn (CHR '' '') (joinSpace ts) = ts"
    by (intro splitOn_joinSpace) (auto simp: list_all_iff)
  then show ?thesis by (simp add: sortSpec_def)
qed

section \<open>The claims\<close>

text \<open>
  C1. The claim: \<^verbatim>\<open>total\<close> is the number of records matching the bracket and equality
  filters and the search predicate together. The handler counts with the filter alone:
  for \<^verbatim>\<open>?search=batman\<close> on the two sample records, \<^verbatim>\<open>total\<close> is 2 although one record
  matches the filter and the search.
\<close>

theorem total_ignores_search:
  "getMovies found sampleMovies [(''search'', QStr ''batman'')] =
     Inr \<lparr>total = 2, nextPage = None, prevPage = None,
           plan = \<lparr>conditions = [QObj [], searchCondition (QStr ''batman'')],
                    selectFields = None, sortBy = ''-createdAt'', skipCount = 0, limitCount = 10\<rparr>\<rparr>
   \<and> matching found sampleMovies
         \<lparr>conditions = [QObj [], searchCondition (QStr ''batman'')],
           selectFields = None, sortBy = ''-createdAt'', skipCount = 0, limitCount = 10\<rparr>
       = Some [[(''title'', ''Batman Begins''), (''director'', ''Christopher Nolan''), (''country'', ''USA'')]]
   \<and> map (satisfies (QObj [])) sampleMovies = [Some True, Some True]
   \<and> map (satisfies (searchCondition (QStr ''batman''))) sampleMovies = [Some True, Some False]"
  by code_simp

text \<open>
  C2, as amended. Translation raises no error on any parameter set. On a parameter set
  without stray operator tokens it gives exactly the translation of section 4.1, step 2:
  \<open>field[op]\<close> with \<open>op\<close> one of gt, gte, lt, lte, in (literally, case-sensitively)
  becomes the operator \<open>$op\<close> on \<open>field\<close>, a bare \<open>field=value\<close> becomes equality,
  other bracket content is left untouched; the value stays the string that was sent,
  commas included.
\<close>

theorem operator_rewrite:
  "JSONparse (queryStr q) \<noteq> None
   \<and> (plainQuery (reqQuery q) \<longrightarrow> JSONparse (queryStr q) = Some (specFilter q))
   \<and> (\<forall>field op value.
         field \<notin> set removeFields \<and> op \<in> set operators
         \<and> \<not> hasOperatorWord field \<and> \<not> hasOperatorWord value \<longrightarrow>
         JSONparse (queryStr [(field, QObj [(op, QStr value)])])
           = Some (QObj [(field, QObj [(CHR ''$'' # op, QStr value)])]))
   \<and> (\<forall>field value.
         field \<notin> set removeFields \<and> \<not> hasOperatorWord field \<and> \<not> hasOperatorWord value \<longrightarrow>
         JSONparse (queryStr [(field, QStr value)]) = Some (QObj [(field, QStr value)]))
   \<and> (\<forall>field b value.
         field \<notin> set removeFields
         \<and> \<not> hasOperatorWord field \<and> \<not> hasOperatorWord b \<and> \<not> hasOperatorWord value \<longrightarrow>
         JSONparse (queryStr [(field, QObj [(b, QStr value)])])
           = Some (QObj [(field, QObj [(b, QStr value)])]))"
  using rewrittenFilter_plain [of q]
  by (simp add: JSONparse_queryStr rewriteStr_plain rewriteStr_operator reqQuery_filter
        rewrittenFilter_def)

theorem operator_rewrite_witness:
  "JSONparse (queryStr [(''genre'', QStr ''Action''), (''sort'', QStr ''-rating''),
                        (''rating'', QObj [(''gte'', QStr ''8''), (''LT'', QStr ''9'')]),
                        (''year'', QObj [(''in'', QStr ''1999,2008'')])])
     = Some (QObj [(''genre'', QStr ''Action''),
                   (''rating'', QObj [(''$gte'', QStr ''8''), (''LT'', QStr ''9'')]),
                   (''year'', QObj [(''$in'', QStr ''1999,2008'')])])"
proof -
  let ?q = "[(''genre'', QStr ''Action''), (''sort'', QStr ''-rating''),
             (''rating'', QObj [(''gte'', QStr ''8''), (''LT'', QStr ''9'')]),
             (''year'', QObj [(''in'', QStr ''1999,2008'')])]"
  have p: "plainQuery (reqQuery ?q)" by code_simp
  have s: "specFilter ?q = QObj [(''genre'', QStr ''Action''),
                   (''rating'', QObj [(''$gte'', QStr ''8''), (''LT'', QStr ''9'')]),
                   (''year'', QObj [(''$in'', QStr ''1999,2008'')])]" by code_simp
  from operator_rewrite [of ?q] p have "JSONparse (queryStr ?q) = Some (specFilter ?q)" by blast
  with s show ?thesis by (simp only:)
qed

text \<open>
  C2 as stated fails: the value of \<^verbatim>\<open>rating[in]=1,2\<close> reaches the store as the string
  \<^verbatim>\<open>"1,2"\<close>, not split, and a token is rewritten outside bracket position as well
  (\<^verbatim>\<open>genre=lt\<close>).
\<close>

theorem in_value_not_split_counterexample:
  "JSONparse (queryStr [(''rating'', QObj [(''in'', QStr ''1,2'')])])
     = Some (QObj [(''rating'', QObj [(''$in'', QStr ''1,2'')])])
   \<and> JSONparse (queryStr [(''rating'', QObj [(''in'', QStr ''1,2'')])])
     \<noteq> Some (QObj [(''rating'', QObj [(''$in'', QArr [QStr ''1'', QStr ''2''])])])
   \<and> JSONparse (queryStr [(''genre'', QStr ''lt'')]) = Some (QObj [(''genre'', QStr ''$lt'')])"
  by code_simp

text \<open>
  C3. When the parsed page and limit are both at least 1, the response has \<^verbatim>\<open>next\<close>,
  equal to \<open>{page + 1, limit}\<close>, exactly when \<open>page * limit < total\<close>, and \<^verbatim>\<open>prev\<close>,
  equal to \<open>{page - 1, limit}\<close>, exactly when \<open>page > 1\<close>, whatever the store counts.
\<close>

theorem pagination_next_prev:
  assumes "getMovies sat recs q = Inr r" and "pageOf q = Inr p" and "limitOf q = Inr l"
    and "1 \<le> p" and "1 \<le> l"
  shows "nextPage r = (if p * l < total r then Some \<lparr> page = p + 1, limit = l \<rparr> else None)
       \<and> prevPage r = (if 1 < p then Some \<lparr> page = p - 1, limit = l \<rparr> else None)"
proof -
  from getMovies_InrD(5) [OF assms(1)] assms(2,3)
  have n: "nextPage r = (if p * l < total r then Some \<lparr> page = p + 1, limit = l \<rparr> else None)"
    and v: "prevPage r = (if (p - 1) * l > 0 then Some \<lparr> page = p - 1, limit = l \<rparr> else None)"
    by auto
  have "(0 < (p - 1) * l) = (1 < p)"
    using assms(4,5) by (simp add: zero_less_mult_iff)
  with n v show ?thesis by simp
qed

text \<open>With 25 records and the default limit, page 3 has \<^verbatim>\<open>prev\<close> \<open>{2, 10}\<close> and no \<^verbatim>\<open>next\<close>.\<close>

theorem pagination_next_prev_witness:
  "(case getMovies (\<lambda>f r. True) (replicate 25 ()) [(''page'', QStr ''3'')] of
      Inl e \<Rightarrow> False
    | Inr r \<Rightarrow> total r = 25 \<and> nextPage r = None \<and> prevPage r = Some \<lparr> page = 2, limit = 10 \<rparr>)"
proof -
  let ?r = "\<lparr>total = 25, nextPage = None, prevPage = Some \<lparr>page = 2, limit = 10\<rparr>,
            plan = \<lparr>conditions = [QObj []], selectFields = None, sortBy = ''-createdAt'',
                     skipCount = 20, limitCount = 10\<rparr>\<rparr>"
  have g: "getMovies (\<lambda>f r. True) (replicate 25 ()) [(''page'', QStr ''3'')] = Inr ?r"
    by code_simp
  have p: "pageOf [(''page'', QStr ''3'')] = Inr 3" by code_simp
  have l: "limitOf [(''page'', QStr ''3'')] = Inr 10" by code_simp
  from pagination_next_prev [OF g p l]
  have "nextPage ?r = None \<and> prevPage ?r = Some \<lparr> page = 2, limit = 10 \<rparr>" by simp
  then show ?thesis by (simp add: g)
qed

text \<open>
  C4. No condition handed to the store has one of the reserved keys \<^verbatim>\<open>select\<close>,
  \<^verbatim>\<open>sort\<close>, \<^verbatim>\<open>page\<close>, \<^verbatim>\<open>limit\<close>, \<^verbatim>\<open>search\<close> as a field: the filter, for the
  query and for the count, is built from the other parameters alone.
\<close>

theorem reserved_keys_not_filtered:
  assumes "getMovies sat recs q = Inr r"
  shows "list_all (\<lambda>c. list_all (\<lambda>k. k \<notin> set removeFields) (topKeys c)) (conditions (plan r))
    \<and> conditions (plan r)
        = rewrittenFilter (filter (\<lambda>kv. fst kv \<notin> set removeFields) q) # searchConditions q
    \<and> total r = int (countDocuments sat recs
                       (rewrittenFilter (filter (\<lambda>kv. fst kv \<notin> set removeFields) q)))"
proof -
  have rf: "rewrittenFilter (filter (\<lambda>kv. fst kv \<notin> set removeFields) q) = rewrittenFilter q"
    using reqQuery_idem [of q] by (simp add: rewrittenFilter_def reqQuery_filter)
  have "k \<notin> set removeFields" if "k \<in> set (topKeys (rewrittenFilter q))" for k
  proof
    assume res: "k \<in> set removeFields"
    from that have "k \<in> rewriteStr ` fst ` set (reqQuery q)"
      by (simp add: rewrittenFilter_def foldl_setProp_keys image_image)
    then obtain kv where kv: "kv \<in> set (reqQuery q)" "k = rewriteStr (fst kv)" by auto
    with res rewriteStr_reserved have "fst kv \<in> set removeFields" by metis
    with kv(1) show False by (simp add: reqQuery_filter)
  qed
  then have "list_all (\<lambda>k. k \<notin> set removeFields) (topKeys (rewrittenFilter q))"
    by (simp add: list_all_iff)
  moreover have "list_all (\<lambda>c. list_all (\<lambda>k. k \<notin> set removeFields) (topKeys c)) (searchConditions q)"
    by (simp add: searchConditions_def searchCondition_def removeFields_def split: option.splits)
  ultimately show ?thesis
    using getMovies_InrD(1,2) [OF assms] by (simp add: rf)
qed

text \<open>
  \<^verbatim>\<open>?sort=-rating&rating[gte]=8\<close> filters on \<open>rating\<close> with \<^verbatim>\<open>$gte\<close> and sorts by
  \<open>rating\<close>, descending.
\<close>

theorem reserved_keys_not_filtered_witness:
  "(case getMovies (\<lambda>f r. True) [()]
           [(''sort'', QStr ''-rating''), (''rating'', QObj [(''gte'', QStr ''8'')])] of
      Inl e \<Rightarrow> False
    | Inr r \<Rightarrow>
        conditions (plan r) = [QObj [(''rating'', QObj [(''$gte'', QStr ''8'')])]]
        \<and> sortSpec (sortBy (plan r)) = Some [(''rating'', Descending)])"
proof -
  let ?q = "[(''sort'', QStr ''-rating''), (''rating'', QObj [(''gte'', QStr ''8'')])]"
  let ?r = "\<lparr>total = 1, nextPage = None, prevPage = None,
           plan = \<lparr>conditions = [QObj [(''rating'', QObj [(''$gte'', QStr ''8'')])]],
                    selectFields = None, sortBy = ''-rating'', skipCount = 0, limitCount = 10\<rparr>\<rparr>"
  have g: "getMovies (\<lambda>f r. True) [()] ?q = Inr ?r" by code_simp
  have f: "rewrittenFilter (filter (\<lambda>kv. fst kv \<notin> set removeFields) ?q)
           = QObj [(''rating'', QObj [(''$gte'', QStr ''8'')])]" by code_simp
  have sc: "searchConditions ?q = []" by code_simp
  have sp: "sortSpec ''-rating'' = Some [(''rating'', Descending)]" by code_simp
  from reserved_keys_not_filtered [OF g]
  have "conditions (plan ?r)
        = rewrittenFilter (filter (\<lambda>kv. fst kv \<notin> set removeFields) ?q) # searchConditions ?q"
    by blast
  with f sc have "conditions (plan ?r) = [QObj [(''rating'', QObj [(''$gte'', QStr ''8'')])]]"
    by (simp only:)
  moreover have "sortSpec (sortBy (plan ?r)) = Some [(''rating'', Descending)]"
    using sp by simp
  ultimately show ?thesis by (simp only: g sum.case)
qed

text \<open>
  C5, as amended. For a request whose \<^verbatim>\<open>search\<close> value is truthy (a string that is
  not empty) the query has two conditions: the filter, and a \<^verbatim>\<open>$or\<close> over exactly
  \<open>title\<close>, \<open>description\<close> and \<open>director\<close>, each matched against the search text
  as a regular expression with option \<^verbatim>\<open>i\<close>. When no parameter is named \<^verbatim>\<open>$or\<close>, a
  record is returned only if it satisfies both. For a search text in which every
  character stands for itself, the condition is a substring match ignoring letter
  case in one of the three fields. A falsy \<^verbatim>\<open>search\<close> adds no condition.
\<close>

theorem search_condition:
  assumes "getMovies sat recs q = Inr r"
  shows "(\<forall>s. getProp q ''search'' = Some s \<and> truthy (Some s) \<longrightarrow>
            conditions (plan r) = [rewrittenFilter q, searchCondition s])
    \<and> (\<forall>s. getProp q ''search'' = Some s \<and> truthy (Some s) \<and> getProp q ''$or'' = None \<longrightarrow>
            matching sat recs (plan r)
              = Some (filter (\<lambda>x. sat (rewrittenFilter q) x \<and> sat (searchCondition s) x) recs))
    \<and> (\<not> truthy (getProp q ''search'') \<longrightarrow> conditions (plan r) = [rewrittenFilter q])
    \<and> (\<forall>p m. literalText p
            \<and> list_all (\<lambda>k. case map_of m k of None \<Rightarrow> True | Some x \<Rightarrow> printable x)
                 [''title'', ''description'', ''director''] \<longrightarrow>
            satisfies (searchCondition (QStr p)) m
              = Some (containsIgnoreCase p (map_of m ''title'')
                      \<or> containsIgnoreCase p (map_of m ''description'')
                      \<or> containsIgnoreCase p (map_of m ''director'')))"
proof -
  note c = getMovies_InrD(2) [OF assms]
  have a: "conditions (plan r) = [rewrittenFilter q, searchCondition s]"
    if "getProp q ''search'' = Some s" "truthy (Some s)" for s
    using c that by (simp add: searchConditions_def)
  have b: "matching sat recs (plan r)
              = Some (filter (\<lambda>x. sat (rewrittenFilter q) x \<and> sat (searchCondition s) x) recs)"
    if "getProp q ''search'' = Some s" "truthy (Some s)" "getProp q ''$or'' = None" for s
  proof -
    have "plan r = \<lparr> conditions = [rewrittenFilter q, searchCondition s],
                     selectFields = selectFields (plan r), sortBy = sortBy (plan r),
                     skipCount = skipCount (plan r), limitCount = limitCount (plan r) \<rparr>"
      using a [OF that(1,2)] by simp
    then show ?thesis using matching_search [OF that(3)] by metis
  qed
  have d: "conditions (plan r) = [rewrittenFilter q]" if "\<not> truthy (getProp q ''search'')"
    using c that by (auto simp: searchConditions_def split: option.splits)
  from a b d satisfies_searchCondition show ?thesis by blast
qed

theorem search_condition_witness:
  "(case getMovies found sampleMovies [(''country'', QStr ''USA''), (''search'', QStr ''NOLAN'')] of
      Inl e \<Rightarrow> False
    | Inr r \<Rightarrow>
        conditions (plan r) = [QObj [(''country'', QStr ''USA'')], searchCondition (QStr ''NOLAN'')]
        \<and> matching found sampleMovies (plan r) =
            Some [[(''title'', ''Batman Begins''), (''director'', ''Christopher Nolan''), (''country'', ''USA'')]])"
proof -
  let ?q = "[(''country'', QStr ''USA''), (''search'', QStr ''NOLAN'')]"
  let ?r = "\<lparr>total = 2, nextPage = None, prevPage = None,
           plan = \<lparr>conditions = [QObj [(''country'', QStr ''USA'')], searchCondition (QStr ''NOLAN'')],
                    selectFields = None, sortBy = ''-createdAt'', skipCount = 0, limitCount = 10\<rparr>\<rparr>"
  have g: "getMovies found sampleMovies ?q = Inr ?r" by code_simp
  have s: "getProp ?q ''search'' = Some (QStr ''NOLAN'')" by code_simp
  have o: "getProp ?q ''$or'' = None" by code_simp
  have t: "truthy (Some (QStr ''NOLAN''))" by simp
  have f: "filter (\<lambda>x. found (rewrittenFilter ?q) x \<and> found (searchCondition (QStr ''NOLAN'')) x) sampleMovies
       = [[(''title'', ''Batman Begins''), (''director'', ''Christopher Nolan''), (''country'', ''USA'')]]"
    by code_simp
  have rf: "rewrittenFilter ?q = QObj [(''country'', QStr ''USA'')]" by code_simp
  from search_condition [OF g] s t o
  have c: "conditions (plan ?r) = [rewrittenFilter ?q, searchCondition (QStr ''NOLAN'')]"
    and m: "matching found sampleMovies (plan ?r)
        = Some (filter (\<lambda>x. found (rewrittenFilter ?q) x \<and> found (searchCondition (QStr ''NOLAN'')) x) sampleMovies)"
    by blast+
  from m f have "matching found sampleMovies (plan ?r) =
      Some [[(''title'', ''Batman Begins''), (''director'', ''Christopher Nolan''), (''country'', ''USA'')]]"
    by (simp only:)
  moreover from c rf have "conditions (plan ?r)
      = [QObj [(''country'', QStr ''USA'')], searchCondition (QStr ''NOLAN'')]"
    by (simp only:)
  ultimately show ?thesis by (simp only: g sum.case)
qed

text \<open>
  C5 as stated fails: \<^verbatim>\<open>?search=b.tman\<close> finds \<open>Batman Begins\<close>, in which the text
  \<^verbatim>\<open>b.tman\<close> does not occur, and \<^verbatim>\<open>?search=\<close> builds no search predicate at all.
\<close>

theorem search_regex_counterexample:
  "getMovies found sampleMovies [(''search'', QStr ''b.tman'')] =
     Inr \<lparr>total = 2, nextPage = None, prevPage = None,
           plan = \<lparr>conditions = [QObj [], searchCondition (QStr ''b.tman'')],
                    selectFields = None, sortBy = ''-createdAt'', skipCount = 0, limitCount = 10\<rparr>\<rparr>
   \<and> matching found sampleMovies
         \<lparr>conditions = [QObj [], searchCondition (QStr ''b.tman'')],
           selectFields = None, sortBy = ''-createdAt'', skipCount = 0, limitCount = 10\<rparr>
       = Some [[(''title'', ''Batman Begins''), (''director'', ''Christopher Nolan''), (''country'', ''USA'')]]
   \<and> map (satisfies (searchCondition (QStr ''b.tman''))) sampleMovies = [Some True, Some False]
   \<and> filter (\<lambda>m. containsIgnoreCase ''b.tman'' (map_of m ''title'')
                  \<or> containsIgnoreCase ''b.tman'' (map_of m ''description'')
                  \<or> containsIgnoreCase ''b.tman'' (map_of m ''director'')) sampleMovies = []
   \<and> getMovies found sampleMovies [(''search'', QStr '''')] =
     Inr \<lparr>total = 2, nextPage = None, prevPage = None,
           plan = \<lparr>conditions = [QObj []],
                    selectFields = None, sortBy = ''-createdAt'', skipCount = 0, limitCount = 10\<rparr>\<rparr>"
  by code_simp





text \<open>
  C7, as amended. The parsed page and limit are never zero. Each is at least 1 unless
  its parameter parses to a negative integer, and a negative integer is passed on
  unchanged: \<^verbatim>\<open>page=-7\<close> gives page \<open>-7\<close>.
\<close>

theorem window_nonzero:
  "(\<forall>p. pageOf q = Inr p \<longrightarrow> p \<noteq> 0)
   \<and> (\<forall>l. limitOf q = Inr l \<longrightarrow> l \<noteq> 0)
   \<and> (\<forall>p. pageOf q = Inr p \<and> (\<forall>n. parseInt10 (getProp q ''page'') = Inr (Some n) \<longrightarrow> 0 \<le> n) \<longrightarrow> 1 \<le> p)
   \<and> (\<forall>l. limitOf q = Inr l \<and> (\<forall>n. parseInt10 (getProp q ''limit'') = Inr (Some n) \<longrightarrow> 0 \<le> n) \<longrightarrow> 1 \<le> l)
   \<and> (\<forall>n. n < 0 \<and> parseInt10 (getProp q ''page'') = Inr (Some n) \<longrightarrow> pageOf q = Inr n)
   \<and> (\<forall>n. n < 0 \<and> parseInt10 (getProp q ''limit'') = Inr (Some n) \<longrightarrow> limitOf q = Inr n)
   \<and> (\<forall>ds. ds \<noteq> [] \<and> list_all isDigit ds \<and> digitsValue ds \<noteq> 0
          \<and> getProp q ''page'' = Some (QStr (''-'' @ ds)) \<longrightarrow> pageOf q = Inr (- digitsValue ds))
   \<and> (\<forall>ds. ds \<noteq> [] \<and> list_all isDigit ds \<and> digitsValue ds \<noteq> 0
          \<and> getProp q ''limit'' = Some (QStr (''-'' @ ds)) \<longrightarrow> limitOf q = Inr (- digitsValue ds))
   \<and> (\<forall>r. getMovies sat recs q = Inr r \<longrightarrow>
          limitOf q = Inr (limitCount (plan r)) \<and> limitCount (plan r) \<noteq> 0
          \<and> (\<exists>p. pageOf q = Inr p \<and> p \<noteq> 0 \<and> skipCount (plan r) = (p - 1) * limitCount (plan r)))"
proof -
  have neg: "parseDecimal (''-'' @ ds) = Some (- digitsValue ds)"
    if "ds \<noteq> []" "list_all isDigit ds" for ds
    using parseDecimal_number [of "[]" "''-''" ds "[]"] that by simp
  have P: "ds \<noteq> [] \<and> list_all isDigit ds \<and> digitsValue ds \<noteq> 0
          \<and> getProp q ''page'' = Some (QStr (''-'' @ ds)) \<longrightarrow> pageOf q = Inr (- digitsValue ds)" for ds
    using neg [of ds]
    by (auto simp: pageOf_def parseInt10_def toStringProp_def orDefault_def simp del: append.simps)
  have L: "ds \<noteq> [] \<and> list_all isDigit ds \<and> digitsValue ds \<noteq> 0
          \<and> getProp q ''limit'' = Some (QStr (''-'' @ ds)) \<longrightarrow> limitOf q = Inr (- digitsValue ds)" for ds
    using neg [of ds]
    by (auto simp: limitOf_def parseInt10_def toStringProp_def orDefault_def simp del: append.simps)
  have nz: "(\<forall>p. pageOf q = Inr p \<longrightarrow> p \<noteq> 0) \<and> (\<forall>l. limitOf q = Inr l \<longrightarrow> l \<noteq> 0)"
    by (auto simp: pageOf_def limitOf_def orDefault_def split: sum.splits option.splits if_splits)
  have R: "getMovies sat recs q = Inr r \<longrightarrow>
          limitOf q = Inr (limitCount (plan r)) \<and> limitCount (plan r) \<noteq> 0
          \<and> (\<exists>p. pageOf q = Inr p \<and> p \<noteq> 0 \<and> skipCount (plan r) = (p - 1) * limitCount (plan r))" for r
    using getMovies_InrD(5) [of sat recs q r] nz by auto
  have rest: "(\<forall>p. pageOf q = Inr p \<and> (\<forall>n. parseInt10 (getProp q ''page'') = Inr (Some n) \<longrightarrow> 0 \<le> n) \<longrightarrow> 1 \<le> p)
   \<and> (\<forall>l. limitOf q = Inr l \<and> (\<forall>n. parseInt10 (getProp q ''limit'') = Inr (Some n) \<longrightarrow> 0 \<le> n) \<longrightarrow> 1 \<le> l)
   \<and> (\<forall>n. n < 0 \<and> parseInt10 (getProp q ''page'') = Inr (Some n) \<longrightarrow> pageOf q = Inr n)
   \<and> (\<forall>n. n < 0 \<and> parseInt10 (getProp q ''limit'') = Inr (Some n) \<longrightarrow> limitOf q = Inr n)"
    by (auto simp: pageOf_def limitOf_def orDefault_def split: sum.splits option.splits if_splits)
  from nz rest P L R show ?thesis by (intro conjI allI) blast+
qed

theorem window_nonzero_witness:
  "pageOf [(''page'', QStr ''-7''), (''limit'', QStr ''7'')] = Inr (- 7)
   \<and> limitOf [(''page'', QStr ''-7''), (''limit'', QStr ''7'')] = Inr 7"
proof -
  let ?q = "[(''page'', QStr ''-7''), (''limit'', QStr ''7'')]"
  note th = window_nonzero [of ?q found sampleMovies]
  have a: "''7'' \<noteq> [] \<and> list_all isDigit ''7'' \<and> digitsValue ''7'' \<noteq> 0
           \<and> getProp ?q ''page'' = Some (QStr (''-'' @ ''7''))" by code_simp
  have v: "digitsValue ''7'' = 7" by code_simp
  from th a have "pageOf ?q = Inr (- digitsValue ''7'')" by blast
  then have p: "pageOf ?q = Inr (- 7)" by (simp add: v)
  have l: "limitOf ?q = Inr 7" by code_simp
  have b: "\<forall>n. parseInt10 (getProp ?q ''limit'') = Inr (Some n) \<longrightarrow> 0 \<le> n"
  proof -
    have "parseInt10 (getProp ?q ''limit'') = Inr (Some 7)" by code_simp
    then show ?thesis by simp
  qed
  from th l b have "(1::int) \<le> 7" by blast
  with p l show ?thesis by simp
qed

text \<open>
  C7 as stated fails: \<^verbatim>\<open>?page=-3&limit=-4\<close> gives page \<open>-3\<close> and a plan that skips 16
  records with limit \<open>-4\<close>.
\<close>

theorem window_negative_counterexample:
  "pageOf [(''page'', QStr ''-3''), (''limit'', QStr ''-4'')] = Inr (- 3)
   \<and> limitOf [(''page'', QStr ''-3''), (''limit'', QStr ''-4'')] = Inr (- 4)
   \<and> getMovies (\<lambda>f r. True) [()] [(''page'', QStr ''-3''), (''limit'', QStr ''-4'')] =
       Inr \<lparr>total = 1, nextPage = None, prevPage = Some \<lparr>page = - 4, limit = - 4\<rparr>,
             plan = \<lparr>conditions = [QObj []], selectFields = None, sortBy = ''-createdAt'',
                      skipCount = 16, limitCount = - 4\<rparr>\<rparr>"
  by code_simp

text \<open>
  C8, as amended. A \<^verbatim>\<open>sort\<close> that is a string and not empty is split at commas and
  handed to the store with the tokens in the same order, separated by spaces. When no
  token holds a space, the store reads the tokens in that order; when moreover the
  tokens name different fields, none of them a number or one of the three skipped
  names, each token is one sort key, descending when prefixed with \<^verbatim>\<open>-\<close>, earlier
  tokens first. Without \<^verbatim>\<open>sort\<close>, or with an empty one, the argument is
  \<^verbatim>\<open>-createdAt\<close>: creation time, descending. A \<^verbatim>\<open>sort\<close> that is not a string raises
  \<^verbatim>\<open>TypeError\<close>.
\<close>

theorem sort_argument:
  "(getProp q ''sort'' = None \<or> getProp q ''sort'' = Some (QStr []) \<longrightarrow> sortOf q = Inr ''-createdAt'')
   \<and> sortSpec ''-createdAt'' = Some [(''createdAt'', Descending)]
   \<and> (\<forall>s. getProp q ''sort'' = Some (QStr s) \<and> s \<noteq> [] \<longrightarrow>
          sortOf q = Inr (joinSpace (splitOn (CHR '','') s)))
   \<and> (\<forall>s. list_all (\<lambda>t. CHR '' '' \<notin> set t) (splitOn (CHR '','') s) \<longrightarrow>
          sortSpec (joinSpace (splitOn (CHR '','') s)) = sortFields (splitOn (CHR '','') s))
   \<and> (\<forall>ts. distinct (map (\<lambda>t. fst (sortToken t)) ts)
          \<and> list_all (\<lambda>t. fst (sortToken t) \<notin> set specialProperties
                            \<and> \<not> numericName (fst (sortToken t))) ts \<longrightarrow>
          sortFields ts = Some (map sortToken ts))
   \<and> (\<forall>t. sortToken (CHR ''-'' # t) = (t, Descending))
   \<and> (\<forall>t. take 1 t \<noteq> ''-'' \<longrightarrow> sortToken t = (t, Ascending))
   \<and> (\<forall>xs. getProp q ''sort'' = Some (QArr xs) \<longrightarrow> sortOf q = Inl TypeError)
   \<and> (\<forall>kvs. getProp q ''sort'' = Some (QObj kvs) \<longrightarrow> sortOf q = Inl TypeError)
   \<and> (\<forall>r. getMovies sat recs q = Inr r \<longrightarrow> sortOf q = Inr (sortBy (plan r)))"
proof -
  have d: "sortSpec ''-createdAt'' = Some [(''createdAt'', Descending)]" by code_simp
  have j: "sortSpec (joinSpace (splitOn (CHR '','') s)) = sortFields (splitOn (CHR '','') s)"
    if "list_all (\<lambda>t. CHR '' '' \<notin> set t) (splitOn (CHR '','') s)" for s
    using that splitOn_nonempty by (rule sortSpec_joinSpace)
  have f: "sortFields ts = Some (map sortToken ts)"
    if "distinct (map (\<lambda>t. fst (sortToken t)) ts)
          \<and> list_all (\<lambda>t. fst (sortToken t) \<notin> set specialProperties
                            \<and> \<not> numericName (fst (sortToken t))) ts" for ts
    using that sortFields_distinct by blast
  have r: "getMovies sat recs q = Inr r \<longrightarrow> sortOf q = Inr (sortBy (plan r))" for r
    using getMovies_InrD(3) [of sat recs q r] by blast
  show ?thesis
  proof (intro conjI allI)
    show "getProp q ''sort'' = None \<or> getProp q ''sort'' = Some (QStr []) \<longrightarrow> sortOf q = Inr ''-createdAt''"
      by (auto simp: sortOf_def)
    show "sortSpec ''-createdAt'' = Some [(''createdAt'', Descending)]" by (rule d)
    show "getProp q ''sort'' = Some (QStr s) \<and> s \<noteq> [] \<longrightarrow>
          sortOf q = Inr (joinSpace (splitOn (CHR '','') s))" for s
      by (auto simp: sortOf_def)
    show "list_all (\<lambda>t. CHR '' '' \<notin> set t) (splitOn (CHR '','') s) \<longrightarrow>
          sortSpec (joinSpace (splitOn (CHR '','') s)) = sortFields (splitOn (CHR '','') s)" for s
      using j by blast
    show "distinct (map (\<lambda>t. fst (sortToken t)) ts)
          \<and> list_all (\<lambda>t. fst (sortToken t) \<notin> set specialProperties
                            \<and> \<not> numericName (fst (sortToken t))) ts \<longrightarrow>
          sortFields ts = Some (map sortToken ts)" for ts
      using f by blast
    show "sortToken (CHR ''-'' # t) = (t, Descending)" for t
      by (simp add: sortToken_def)
    show "take 1 t \<noteq> ''-'' \<longrightarrow> sortToken t = (t, Ascending)" for t
      by (simp add: sortToken_def)
    show "getProp q ''sort'' = Some (QArr xs) \<longrightarrow> sortOf q = Inl TypeError" for xs
      by (simp add: sortOf_def)
    show "getProp q ''sort'' = Some (QObj kvs) \<longrightarrow> sortOf q = Inl TypeError" for kvs
      by (simp add: sortOf_def)
    show "getMovies sat recs q = Inr r \<longrightarrow> sortOf q = Inr (sortBy (plan r))" for r
      by (rule r)
  qed
qed

theorem sort_argument_witness:
  "(case getMovies (\<lambda>f r. True) [()] [(''sort'', QStr ''-rating,title'')] of
      Inl e \<Rightarrow> False
    | Inr r \<Rightarrow> sortBy (plan r) = ''-rating title''
        \<and> sortSpec (sortBy (plan r)) = Some [(''rating'', Descending), (''title'', Ascending)])"
proof -
  let ?q = "[(''sort'', QStr ''-rating,title'')]"
  let ?r = "\<lparr>total = 1, nextPage = None, prevPage = None,
           plan = \<lparr>conditions = [QObj []],
                    selectFields = None, sortBy = ''-rating title'', skipCount = 0, limitCount = 10\<rparr>\<rparr>"
  have g: "getMovies (\<lambda>f r. True) [()] ?q = Inr ?r" by code_simp
  have s: "getProp ?q ''sort'' = Some (QStr ''-rating,title'') \<and> ''-rating,title'' \<noteq> []" by code_simp
  have sp: "splitOn (CHR '','') ''-rating,title'' = [''-rating'', ''title'']" by code_simp
  have la: "list_all (\<lambda>t. CHR '' '' \<notin> set t) (splitOn (CHR '','') ''-rating,title'')"
    by (simp add: sp)
  have di: "distinct (map (\<lambda>t. fst (sortToken t)) [''-rating'', ''title''])
          \<and> list_all (\<lambda>t. fst (sortToken t) \<notin> set specialProperties
                            \<and> \<not> numericName (fst (sortToken t))) [''-rating'', ''title'']"
    by code_simp
  have t1: "take 1 ''title'' \<noteq> ''-''" by simp
  note th = sort_argument [of ?q "\<lambda>f r. True" "[()]"]
  from th s have "sortOf ?q = Inr (joinSpace (splitOn (CHR '','') ''-rating,title''))" by blast
  moreover from th g have "sortOf ?q = Inr (sortBy (plan ?r))" by blast
  ultimately have a: "sortBy (plan ?r) = joinSpace (splitOn (CHR '','') ''-rating,title'')" by simp
  from th la have "sortSpec (joinSpace (splitOn (CHR '','') ''-rating,title''))
      = sortFields (splitOn (CHR '','') ''-rating,title'')" by blast
  moreover from th di have "sortFields [''-rating'', ''title''] = Some (map sortToken [''-rating'', ''title''])"
    by blast
  moreover from th have "sortToken (CHR ''-'' # ''rating'') = (''rating'', Descending)" by blast
  moreover from th t1 have "sortToken ''title'' = (''title'', Ascending)" by blast
  ultimately have "sortSpec (sortBy (plan ?r)) = Some [(''rating'', Descending), (''title'', Ascending)]"
    using a by (simp add: sp)
  moreover have "sortBy (plan ?r) = ''-rating title''" by simp
  ultimately show ?thesis by (simp only: g sum.case)
qed

text \<open>
  C8 as stated fails: a repeated parameter (\<^verbatim>\<open>?sort=title&sort=-rating\<close>) is not split
  but raises \<^verbatim>\<open>TypeError\<close>, \<^verbatim>\<open>?sort=\<close> is present and gives the default, and a token
  with a space in it is read by the store as two fields.
\<close>

theorem sort_not_string_counterexample:
  "getMovies (\<lambda>f r. True) [()] [(''sort'', QArr [QStr ''title'', QStr ''-rating''])] = Inl TypeError
   \<and> getMovies (\<lambda>f r. True) [()] [(''sort'', QStr '''')] =
       Inr \<lparr>total = 1, nextPage = None, prevPage = None,
             plan = \<lparr>conditions = [QObj []], selectFields = None, sortBy = ''-createdAt'',
                      skipCount = 0, limitCount = 10\<rparr>\<rparr>
   \<and> getMovies (\<lambda>f r. True) [()] [(''sort'', QStr ''release date,title'')] =
       Inr \<lparr>total = 1, nextPage = None, prevPage = None,
             plan = \<lparr>conditions = [QObj []], selectFields = None, sortBy = ''release date title'',
                      skipCount = 0, limitCount = 10\<rparr>\<rparr>
   \<and> sortSpec ''release date title''
       = Some [(''release'', Ascending), (''date'', Ascending), (''title'', Ascending)]"
  by code_simp

text \<open>
  C9. The rewrite runs over the whole serialized parameter set: \<^verbatim>\<open>?title=gt\<close> asks
  the store for the title \<^verbatim>\<open>$gt\<close>, and a field named \<^verbatim>\<open>in\<close> becomes \<^verbatim>\<open>$in\<close>. A
  record whose title is \<^verbatim>\<open>gt\<close> is not found by \<^verbatim>\<open>?title=gt\<close>.
\<close>

theorem rewrite_reaches_values_and_names:
  "queryStr [(''title'', QStr ''gt'')] = stringify (QObj [(''title'', QStr ''$gt'')])
   \<and> JSONparse (queryStr [(''title'', QStr ''gt'')]) = Some (QObj [(''title'', QStr ''$gt'')])
   \<and> queryStr [(''in'', QStr ''x'')] = stringify (QObj [(''$in'', QStr ''x'')])
   \<and> JSONparse (queryStr [(''in'', QStr ''x'')]) = Some (QObj [(''$in'', QStr ''x'')])
   \<and> countDocuments found [[(''title'', ''gt'')]] (QObj [(''title'', QStr ''gt'')]) = 1
   \<and> satisfies (QObj [(''title'', QStr ''$gt'')]) [(''title'', ''gt'')] = Some False
   \<and> getMovies found [[(''title'', ''gt'')]] [(''title'', QStr ''gt'')] =
       Inr \<lparr>total = 0, nextPage = None, prevPage = None,
             plan = \<lparr>conditions = [QObj [(''title'', QStr ''$gt'')]], selectFields = None,
                      sortBy = ''-createdAt'', skipCount = 0, limitCount = 10\<rparr>\<rparr>"
  by code_simp

text \<open>
  C10. A page or limit that parses to 0 is replaced by the default (1, respectively 10),
  as a malformed one is; a negative integer is kept. So \<^verbatim>\<open>page=0\<close> gives 1,
  \<^verbatim>\<open>limit=0\<close> gives 10, \<^verbatim>\<open>page=-2\<close> gives \<open>-2\<close> and \<^verbatim>\<open>limit=-5\<close> gives \<open>-5\<close>.
\<close>

theorem zero_is_falsy_negative_kept:
  "(parseInt10 (getProp q ''page'') = Inr (Some 0) \<longrightarrow> pageOf q = Inr 1)
   \<and> (parseInt10 (getProp q ''limit'') = Inr (Some 0) \<longrightarrow> limitOf q = Inr 10)
   \<and> (\<forall>n. n < 0 \<and> parseInt10 (getProp q ''page'') = Inr (Some n) \<longrightarrow> pageOf q = Inr n)
   \<and> (\<forall>n. n < 0 \<and> parseInt10 (getProp q ''limit'') = Inr (Some n) \<longrightarrow> limitOf q = Inr n)"
  by (auto simp: pageOf_def limitOf_def orDefault_def)

theorem zero_is_falsy_negative_kept_witness:
  "pageOf [(''page'', QStr ''0''), (''limit'', QStr ''0'')] = Inr 1
   \<and> limitOf [(''page'', QStr ''0''), (''limit'', QStr ''0'')] = Inr 10
   \<and> pageOf [(''page'', QStr ''-2''), (''limit'', QStr ''-5'')] = Inr (- 2)
   \<and> limitOf [(''page'', QStr ''-2''), (''limit'', QStr ''-5'')] = Inr (- 5)"
proof -
  have a: "parseInt10 (getProp [(''page'', QStr ''0''), (''limit'', QStr ''0'')] ''page'') = Inr (Some 0)"
    by code_simp
  have b: "parseInt10 (getProp [(''page'', QStr ''0''), (''limit'', QStr ''0'')] ''limit'') = Inr (Some 0)"
    by code_simp
  have c: "parseInt10 (getProp [(''page'', QStr ''-2''), (''limit'', QStr ''-5'')] ''page'') = Inr (Some (- 2))"
    by code_simp
  have d: "parseInt10 (getProp [(''page'', QStr ''-2''), (''limit'', QStr ''-5'')] ''limit'') = Inr (Some (- 5))"
    by code_simp
  show ?thesis
    using zero_is_falsy_negative_kept [of "[(''page'', QStr ''0''), (''limit'', QStr ''0'')]"]
      zero_is_falsy_negative_kept [of "[(''page'', QStr ''-2''), (''limit'', QStr ''-5'')]"]
    by (simp add: a b c d)
qed

end
